theory Spec2Isabelle
  imports Main "HOL-Library.Multiset"
begin

section \<open>The patterns of \<^verbatim>\<open>tools/spy_parser.py\<close>\<close>

text \<open>
  The parser compiles 33 regular expressions and tries them with \<^verbatim>\<open>pat.match(line)\<close>,
  which anchors the pattern at the start of the line and not at its end. The expressions
  are built from literal text, a single character of a class, and one or more characters
  of a class (\<^verbatim>\<open>+\<close>, greedy), the last two possibly inside a named group.
\<close>

datatype cls = Digit | Hex | Word | Bit | DigitComma

fun in_cls :: "cls \<Rightarrow> char \<Rightarrow> bool" where
  "in_cls Digit c = (c \<in> set ''0123456789'')"
| "in_cls Hex c = (c \<in> set ''0123456789abcdef'')"
| "in_cls Word c =
     (c \<in> set ''abcdefghijklmnopqrstuvwxyzABCDEFGHIJKLMNOPQRSTUVWXYZ0123456789_'')"
| "in_cls Bit c = (c \<in> set ''01'')"
| "in_cls DigitComma c = (c \<in> set ''0123456789,'')"

datatype re = Lit string | One "string option" cls | Plus "string option" cls

type_synonym groups = "(string \<times> string) list"

fun bind :: "string option \<Rightarrow> string \<Rightarrow> groups \<Rightarrow> groups" where
  "bind None v m = m"
| "bind (Some n) v m = (n, v) # m"

fun strip :: "string \<Rightarrow> string \<Rightarrow> string option" where
  "strip [] s = Some s"
| "strip (c # cs) [] = None"
| "strip (c # cs) (x # s) = (if c = x then strip cs s else None)"

text \<open>
  \<open>run p s\<close> lists the ways the pattern \<open>p\<close> matches at the start of \<open>s\<close>, as the
  group bindings of each, in the order a backtracking matcher finds them: a \<^verbatim>\<open>+\<close> takes
  the longest run of its class first and gives characters back one at a time.
\<close>

fun run :: "re list \<Rightarrow> string \<Rightarrow> groups list" where
  "run [] s = [[]]"
| "run (Lit l # rs) s = (case strip l s of None \<Rightarrow> [] | Some s' \<Rightarrow> run rs s')"
| "run (One g c # rs) s =
     (case s of [] \<Rightarrow> []
      | x # s' \<Rightarrow> if in_cls c x then map (bind g [x]) (run rs s') else [])"
| "run (Plus g c # rs) s =
     concat (map (\<lambda>n. map (bind g (take n s)) (run rs (drop n s)))
                 (rev [1 ..< Suc (length (takeWhile (in_cls c) s))]))"

text \<open>\<^verbatim>\<open>pat.match(line)\<close>: the first match, or \<^verbatim>\<open>None\<close>.\<close>

definition re_match :: "re list \<Rightarrow> string \<Rightarrow> groups option" where
  "re_match p s = (case run p s of [] \<Rightarrow> None | m # _ \<Rightarrow> Some m)"

text \<open>
  \<^verbatim>\<open>m.group(name)\<close> and \<^verbatim>\<open>int(m.group(name))\<close>. The source asks a match only for groups of
  its own pattern, and \<^verbatim>\<open>int\<close> only for groups of decimal digits, so neither call raises;
  the empty string stands for the cases that do not arise.
\<close>

definition group :: "groups option \<Rightarrow> string \<Rightarrow> string" where
  "group m n = (case m of None \<Rightarrow> []
                | Some g \<Rightarrow> (case map_of g n of Some v \<Rightarrow> v | None \<Rightarrow> []))"

definition digit_val :: "char \<Rightarrow> int" where
  "digit_val c = int (of_char c) - 48"

definition py_int :: "string \<Rightarrow> int" where
  "py_int s = foldl (\<lambda>a c. 10 * a + digit_val c) 0 s"

definition geti :: "groups option \<Rightarrow> string \<Rightarrow> int" where
  "geti m n = py_int (group m n)"

abbreviation num :: "string \<Rightarrow> re" where
  "num n \<equiv> Plus (Some n) Digit"

definition prefix :: "re list" where
  "prefix = [Lit ''['', Plus (Some ''node'') Digit, Lit '' - '', Plus (Some ''thread'') Hex,
             Lit ''] {'', Plus None Word, Lit ''}{legion_spy}: '']"

definition utility_pat :: "re list" where
  "utility_pat = prefix @
     [Lit ''Utility '', num ''pid'']"

definition processor_pat :: "re list" where
  "processor_pat = prefix @
     [Lit ''Processor '', num ''pid'', Lit '' '', num ''util'', Lit '' '', num ''kind'']"

definition memory_pat :: "re list" where
  "memory_pat = prefix @
     [Lit ''Memory '', num ''mid'', Lit '' '', num ''capacity'']"

definition proc_mem_pat :: "re list" where
  "proc_mem_pat = prefix @
     [Lit ''Processor Memory '', num ''pid'', Lit '' '', num ''mid'', Lit '' '', num ''band'',
      Lit '' '', num ''lat'']"

definition mem_mem_pat :: "re list" where
  "mem_mem_pat = prefix @
     [Lit ''Memory Memory '', num ''mone'', Lit '' '', num ''mtwo'', Lit '' '', num ''band'',
      Lit '' '', num ''lat'']"

definition top_index_pat :: "re list" where
  "top_index_pat = prefix @
     [Lit ''Index Space '', num ''uid'']"

definition index_part_pat :: "re list" where
  "index_part_pat = prefix @
     [Lit ''Index Partition '', num ''pid'', Lit '' '', num ''uid'', Lit '' '',
      One (Some ''disjoint'') Bit, Lit '' '', num ''color'']"

definition index_subspace_pat :: "re list" where
  "index_subspace_pat = prefix @
     [Lit ''Index Subspace '', num ''pid'', Lit '' '', num ''uid'', Lit '' '', num ''color'']"

definition field_space_pat :: "re list" where
  "field_space_pat = prefix @
     [Lit ''Field Space '', num ''uid'']"

definition field_create_pat :: "re list" where
  "field_create_pat = prefix @
     [Lit ''Field Creation '', num ''uid'', Lit '' '', num ''fid'']"

definition region_pat :: "re list" where
  "region_pat = prefix @
     [Lit ''Region '', num ''iid'', Lit '' '', num ''fid'', Lit '' '', num ''tid'']"

definition top_task_pat :: "re list" where
  "top_task_pat = prefix @
     [Lit ''Top Task '', num ''tid'', Lit '' '', num ''uid'', Lit '' '',
      Plus (Some ''name'') Word]"

definition single_task_pat :: "re list" where
  "single_task_pat = prefix @
     [Lit ''Individual Task '', num ''ctx'', Lit '' '', num ''tid'', Lit '' '', num ''uid'',
      Lit '' '', Plus (Some ''name'') Word]"

definition index_task_pat :: "re list" where
  "index_task_pat = prefix @
     [Lit ''Index Task '', num ''ctx'', Lit '' '', num ''tid'', Lit '' '', num ''uid'',
      Lit '' '', Plus (Some ''name'') Word]"

definition mapping_pat :: "re list" where
  "mapping_pat = prefix @
     [Lit ''Mapping Operation '', num ''ctx'', Lit '' '', num ''uid'']"

definition close_pat :: "re list" where
  "close_pat = prefix @
     [Lit ''Close Operation '', num ''ctx'', Lit '' '', num ''uid'']"

definition copy_op_pat :: "re list" where
  "copy_op_pat = prefix @
     [Lit ''Copy Operation '', num ''ctx'', Lit '' '', num ''uid'']"

definition deletion_pat :: "re list" where
  "deletion_pat = prefix @
     [Lit ''Deletion Operation '', num ''ctx'', Lit '' '', num ''uid'']"

definition index_slice_pat :: "re list" where
  "index_slice_pat = prefix @
     [Lit ''Index Slice '', num ''index'', Lit '' '', num ''slice'']"

definition slice_slice_pat :: "re list" where
  "slice_slice_pat = prefix @
     [Lit ''Slice Slice '', num ''slice1'', Lit '' '', num ''slice2'']"

definition slice_point_pat :: "re list" where
  "slice_point_pat = prefix @
     [Lit ''Slice Point '', num ''slice'', Lit '' '', num ''point'', Lit '' '', num ''dim'',
      Lit '' '', num ''val1'', Lit '' '', num ''val2'', Lit '' '', num ''val3'']"

definition point_point_pat :: "re list" where
  "point_point_pat = prefix @
     [Lit ''Point Point '', num ''point1'', Lit '' '', num ''point2'']"

definition requirement_pat :: "re list" where
  "requirement_pat = prefix @
     [Lit ''Logical Requirement '', num ''uid'', Lit '' '', num ''index'', Lit '' '',
      One (Some ''is_reg'') Bit, Lit '' '', num ''ispace'', Lit '' '', num ''fspace'',
      Lit '' '', num ''tid'', Lit '' '', num ''priv'', Lit '' '', num ''coher'', Lit '' '',
      num ''redop'']"

definition req_field_pat :: "re list" where
  "req_field_pat = prefix @
     [Lit ''Logical Requirement Field '', num ''uid'', Lit '' '', num ''index'', Lit '' '',
      num ''fid'']"

definition mapping_dep_pat :: "re list" where
  "mapping_dep_pat = prefix @
     [Lit ''Mapping Dependence '', num ''ctx'', Lit '' '', num ''prev_id'', Lit '' '',
      num ''pidx'', Lit '' '', num ''next_id'', Lit '' '', num ''nidx'', Lit '' '',
      num ''dtype'']"

definition task_inst_req_pat :: "re list" where
  "task_inst_req_pat = prefix @
     [Lit ''Task Instance Requirement '', num ''uid'', Lit '' '', num ''idx'', Lit '' '',
      num ''index'']"

definition event_event_pat :: "re list" where
  "event_event_pat = prefix @
     [Lit ''Event Event '', num ''idone'', Lit '' '', num ''genone'', Lit '' '', num ''idtwo'',
      Lit '' '', num ''gentwo'']"

definition implicit_event_pat :: "re list" where
  "implicit_event_pat = prefix @
     [Lit ''Implicit Event '', num ''idone'', Lit '' '', num ''genone'', Lit '' '',
      num ''idtwo'', Lit '' '', num ''gentwo'']"

definition op_event_pat :: "re list" where
  "op_event_pat = prefix @
     [Lit ''Op Events '', num ''uid'', Lit '' '', num ''startid'', Lit '' '', num ''startgen'',
      Lit '' '', num ''termid'', Lit '' '', num ''termgen'']"

definition copy_event_pat :: "re list" where
  "copy_event_pat = prefix @
     [Lit ''Copy Events '', num ''srcman'', Lit '' '', num ''dstman'', Lit '' '',
      num ''index'', Lit '' '', num ''field'', Lit '' '', num ''tree'', Lit '' '',
      num ''startid'', Lit '' '', num ''startgen'', Lit '' '', num ''termid'', Lit '' '',
      num ''termgen'', Lit '' '', num ''redop'', Lit '' '', Plus (Some ''mask'') DigitComma]"

definition physical_inst_pat :: "re list" where
  "physical_inst_pat = prefix @
     [Lit ''Physical Instance '', num ''iid'', Lit '' '', num ''mid'', Lit '' '',
      num ''index'', Lit '' '', num ''field'', Lit '' '', num ''tid'']"

definition physical_reduc_pat :: "re list" where
  "physical_reduc_pat = prefix @
     [Lit ''Reduction Instance '', num ''iid'', Lit '' '', num ''mid'', Lit '' '',
      num ''index'', Lit '' '', num ''field'', Lit '' '', num ''tid'', Lit '' '',
      One (Some ''fold'') Bit, Lit '' '', num ''indirect'']"

definition op_user_pat :: "re list" where
  "op_user_pat = prefix @
     [Lit ''Op Instance User '', num ''uid'', Lit '' '', num ''idx'', Lit '' '', num ''iid'']"

text \<open>The patterns in the order of their definition in the source.\<close>

definition pats :: "re list list" where
  "pats = [utility_pat, processor_pat, memory_pat, proc_mem_pat,
           mem_mem_pat, top_index_pat, index_part_pat, index_subspace_pat,
           field_space_pat, field_create_pat, region_pat, top_task_pat,
           single_task_pat, index_task_pat, mapping_pat, close_pat,
           copy_op_pat, deletion_pat, index_slice_pat, slice_slice_pat,
           slice_point_pat, point_point_pat, requirement_pat, req_field_pat,
           mapping_dep_pat, task_inst_req_pat, event_event_pat, implicit_event_pat,
           op_event_pat, copy_event_pat, physical_inst_pat, physical_reduc_pat,
           op_user_pat]"

section \<open>The state object\<close>

text \<open>
  \<^verbatim>\<open>parse_log_file\<close> receives a \<^verbatim>\<open>state\<close> object (of \<^verbatim>\<open>spy_analysis\<close>, which is not
  part of the sources at hand) and calls one method of it for each kind of line. A
  call is a method name with its arguments; the object is a function that, given a call
  and its current contents, answers with the truth value of what the method returns and
  with its new contents. The methods are taken to return: a method that raises or runs
  forever is outside the model.
\<close>

datatype (plugins only: code) call =
    add_utility int
  | add_processor int int int
  | add_memory int int
  | set_proc_mem int int int int
  | set_mem_mem int int int int
  | add_index_space int
  | add_index_partition int int bool int
  | add_index_subspace int int int
  | add_field_space int
  | add_field int int
  | add_region int int int
  | add_top_task int int string
  | add_single_task int int int string
  | add_index_task int int int string
  | add_mapping int int
  | add_close int int
  | add_copy_op int int
  | add_deletion int int
  | add_index_slice int int
  | add_slice_slice int int
  | add_slice_point int int int int int int
  | add_point_point int int
  | add_requirement int int bool int int int int int int
  | add_req_field int int int
  | add_mapping_dependence int int int int int int
  | add_instance_requirement int int int
  | add_event_dependence int int int int
  | add_implicit_dependence int int int int
  | add_op_events int int int int int
  | add_copy_events int int int int int int int int int int string
  | add_physical_instance int int int int int
  | add_reduction_instance int int int int int bool int
  | add_op_user int int int

type_synonym 'st methods = "call \<Rightarrow> 'st \<Rightarrow> bool \<times> 'st"

section \<open>\<^verbatim>\<open>parse_log_file\<close>\<close>

datatype error = AssertionError | ValueError

text \<open>The local variables of \<^verbatim>\<open>parse_log_file\<close>, the state object and what is printed.\<close>

record 'st env =
  matches :: int
  replay_lines :: "string list"
  to_delete :: "string list"
  state :: 'st
  stdout :: "string list"

text \<open>\<^verbatim>\<open>state.f(...)\<close> as a statement: what the method returns is dropped.\<close>

definition call_ignored :: "'st methods \<Rightarrow> call \<Rightarrow> 'st env \<Rightarrow> 'st env" where
  "call_ignored f c e = e\<lparr>state := snd (f c (state e))\<rparr>"

text \<open>\<^verbatim>\<open>if not state.f(...): replay_lines.append(line)\<close>\<close>

definition call_or_defer :: "'st methods \<Rightarrow> string \<Rightarrow> call \<Rightarrow> 'st env \<Rightarrow> 'st env" where
  "call_or_defer f line c e =
     (let (ok, s) = f c (state e) in
      if \<not> ok then e\<lparr>state := s, replay_lines := replay_lines e @ [line]\<rparr>
      else e\<lparr>state := s\<rparr>)"

text \<open>
  \<^verbatim>\<open>if state.f(...): to_delete.add(line)\<close>; \<^verbatim>\<open>to_delete\<close> is a Python set, kept here as a
  list without duplicates.
\<close>

definition call_and_mark :: "'st methods \<Rightarrow> string \<Rightarrow> call \<Rightarrow> 'st env \<Rightarrow> 'st env" where
  "call_and_mark f line c e =
     (let (ok, s) = f c (state e) in
      if ok then e\<lparr>state := s, to_delete := List.insert line (to_delete e)\<rparr>
      else e\<lparr>state := s\<rparr>)"

text \<open>The body of \<^verbatim>\<open>for line in log\<close> (lines 79 to 247).\<close>

definition scan_line :: "'st methods \<Rightarrow> string \<Rightarrow> 'st env \<Rightarrow> 'st env" where
  "scan_line f line e0 =
    (let e = e0\<lparr>matches := matches e0 + 1\<rparr> in
     let m = re_match utility_pat line in
     if m \<noteq> None then
       call_ignored f (add_utility (geti m ''pid'')) e
     else
     let m = re_match processor_pat line in
     if m \<noteq> None then
       call_or_defer f line (add_processor (geti m ''pid'') (geti m ''util'')
          (geti m ''kind'')) e
     else
     let m = re_match memory_pat line in
     if m \<noteq> None then
       call_ignored f (add_memory (geti m ''mid'') (geti m ''capacity'')) e
     else
     let m = re_match proc_mem_pat line in
     if m \<noteq> None then
       call_or_defer f line (set_proc_mem (geti m ''pid'') (geti m ''mid'') (geti m ''band'')
          (geti m ''lat'')) e
     else
     let m = re_match mem_mem_pat line in
     if m \<noteq> None then
       call_or_defer f line (set_mem_mem (geti m ''mone'') (geti m ''mtwo'') (geti m ''band'')
          (geti m ''lat'')) e
     else
     let m = re_match top_index_pat line in
     if m \<noteq> None then
       call_ignored f (add_index_space (geti m ''uid'')) e
     else
     let m = re_match index_part_pat line in
     if m \<noteq> None then
       call_or_defer f line (add_index_partition (geti m ''pid'') (geti m ''uid'')
          (geti m ''disjoint'' = 1) (geti m ''color'')) e
     else
     let m = re_match index_subspace_pat line in
     if m \<noteq> None then
       call_or_defer f line (add_index_subspace (geti m ''pid'') (geti m ''uid'')
          (geti m ''color'')) e
     else
     let m = re_match field_space_pat line in
     if m \<noteq> None then
       call_ignored f (add_field_space (geti m ''uid'')) e
     else
     let m = re_match field_create_pat line in
     if m \<noteq> None then
       call_or_defer f line (add_field (geti m ''uid'') (geti m ''fid'')) e
     else
     let m = re_match region_pat line in
     if m \<noteq> None then
       call_or_defer f line (add_region (geti m ''iid'') (geti m ''fid'') (geti m ''tid'')) e
     else
     let m = re_match top_task_pat line in
     if m \<noteq> None then
       call_ignored f (add_top_task (geti m ''tid'') (geti m ''uid'') (group m ''name'')) e
     else
     let m = re_match single_task_pat line in
     if m \<noteq> None then
       call_or_defer f line (add_single_task (geti m ''ctx'') (geti m ''tid'')
          (geti m ''uid'') (group m ''name'')) e
     else
     let m = re_match index_task_pat line in
     if m \<noteq> None then
       call_or_defer f line (add_index_task (geti m ''ctx'') (geti m ''tid'') (geti m ''uid'')
          (group m ''name'')) e
     else
     let m = re_match mapping_pat line in
     if m \<noteq> None then
       call_or_defer f line (add_mapping (geti m ''ctx'') (geti m ''uid'')) e
     else
     let m = re_match close_pat line in
     if m \<noteq> None then
       call_or_defer f line (add_close (geti m ''ctx'') (geti m ''uid'')) e
     else
     let m = re_match copy_op_pat line in
     if m \<noteq> None then
       call_or_defer f line (add_copy_op (geti m ''ctx'') (geti m ''uid'')) e
     else
     let m = re_match deletion_pat line in
     if m \<noteq> None then
       call_or_defer f line (add_deletion (geti m ''ctx'') (geti m ''uid'')) e
     else
     let m = re_match index_slice_pat line in
     if m \<noteq> None then
       call_or_defer f line (add_index_slice (geti m ''index'') (geti m ''slice'')) e
     else
     let m = re_match slice_slice_pat line in
     if m \<noteq> None then
       call_or_defer f line (add_slice_slice (geti m ''slice1'') (geti m ''slice2'')) e
     else
     let m = re_match slice_point_pat line in
     if m \<noteq> None then
       call_or_defer f line (add_slice_point (geti m ''slice'') (geti m ''point'')
          (geti m ''dim'') (geti m ''val1'') (geti m ''val2'') (geti m ''val3'')) e
     else
     let m = re_match point_point_pat line in
     if m \<noteq> None then
       call_or_defer f line (add_point_point (geti m ''point1'') (geti m ''point2'')) e
     else
     let m = re_match requirement_pat line in
     if m \<noteq> None then
       call_or_defer f line (add_requirement (geti m ''uid'') (geti m ''index'')
          (geti m ''is_reg'' = 1) (geti m ''ispace'') (geti m ''fspace'') (geti m ''tid'')
          (geti m ''priv'') (geti m ''coher'') (geti m ''redop'')) e
     else
     let m = re_match req_field_pat line in
     if m \<noteq> None then
       call_or_defer f line (add_req_field (geti m ''uid'') (geti m ''index'')
          (geti m ''fid'')) e
     else
     let m = re_match mapping_dep_pat line in
     if m \<noteq> None then
       call_or_defer f line (add_mapping_dependence (geti m ''ctx'') (geti m ''prev_id'')
          (geti m ''pidx'') (geti m ''next_id'') (geti m ''nidx'') (geti m ''dtype'')) e
     else
     let m = re_match task_inst_req_pat line in
     if m \<noteq> None then
       call_or_defer f line (add_instance_requirement (geti m ''uid'') (geti m ''idx'')
          (geti m ''index'')) e
     else
     let m = re_match event_event_pat line in
     if m \<noteq> None then
       call_ignored f (add_event_dependence (geti m ''idone'') (geti m ''genone'')
          (geti m ''idtwo'') (geti m ''gentwo'')) e
     else
     let m = re_match implicit_event_pat line in
     if m \<noteq> None then
       call_ignored f (add_implicit_dependence (geti m ''idone'') (geti m ''genone'')
          (geti m ''idtwo'') (geti m ''gentwo'')) e
     else
     let m = re_match op_event_pat line in
     if m \<noteq> None then
       call_or_defer f line (add_op_events (geti m ''uid'') (geti m ''startid'')
          (geti m ''startgen'') (geti m ''termid'') (geti m ''termgen'')) e
     else
     let m = re_match copy_event_pat line in
     if m \<noteq> None then
       call_or_defer f line (add_copy_events (geti m ''srcman'') (geti m ''dstman'')
          (geti m ''index'') (geti m ''field'') (geti m ''tree'') (geti m ''startid'')
          (geti m ''startgen'') (geti m ''termid'') (geti m ''termgen'') (geti m ''redop'')
          (group m ''mask'')) e
     else
     let m = re_match physical_inst_pat line in
     if m \<noteq> None then
       call_or_defer f line (add_physical_instance (geti m ''iid'') (geti m ''mid'')
          (geti m ''index'') (geti m ''field'') (geti m ''tid'')) e
     else
     let m = re_match physical_reduc_pat line in
     if m \<noteq> None then
       call_or_defer f line (add_reduction_instance (geti m ''iid'') (geti m ''mid'')
          (geti m ''index'') (geti m ''field'') (geti m ''tid'') (geti m ''fold'' = 1)
          (geti m ''indirect'')) e
     else
     let m = re_match op_user_pat line in
     if m \<noteq> None then
       call_or_defer f line (add_op_user (geti m ''uid'') (geti m ''idx'') (geti m ''iid'')) e
     else
     e\<lparr>matches := matches e - 1,
       stdout := stdout e @ [''Skipping unmatched line: '' @ line]\<rparr>)"

text \<open>The body of \<^verbatim>\<open>for line in replay_lines\<close> (lines 253 to 357).\<close>

definition replay_line :: "'st methods \<Rightarrow> string \<Rightarrow> 'st env \<Rightarrow> 'st env" where
  "replay_line f line e =
    (
     let m = re_match processor_pat line in
     if m \<noteq> None then
       call_and_mark f line (add_processor (geti m ''pid'') (geti m ''util'')
          (geti m ''kind'')) e
     else
     let m = re_match proc_mem_pat line in
     if m \<noteq> None then
       call_and_mark f line (set_proc_mem (geti m ''pid'') (geti m ''mid'') (geti m ''band'')
          (geti m ''lat'')) e
     else
     let m = re_match mem_mem_pat line in
     if m \<noteq> None then
       call_and_mark f line (set_mem_mem (geti m ''mone'') (geti m ''mtwo'') (geti m ''band'')
          (geti m ''lat'')) e
     else
     let m = re_match index_part_pat line in
     if m \<noteq> None then
       call_and_mark f line (add_index_partition (geti m ''pid'') (geti m ''uid'')
          (geti m ''disjoint'' = 1) (geti m ''color'')) e
     else
     let m = re_match index_subspace_pat line in
     if m \<noteq> None then
       call_and_mark f line (add_index_subspace (geti m ''pid'') (geti m ''uid'')
          (geti m ''color'')) e
     else
     let m = re_match single_task_pat line in
     if m \<noteq> None then
       call_and_mark f line (add_single_task (geti m ''ctx'') (geti m ''tid'')
          (geti m ''uid'') (group m ''name'')) e
     else
     let m = re_match index_task_pat line in
     if m \<noteq> None then
       call_and_mark f line (add_index_task (geti m ''ctx'') (geti m ''tid'') (geti m ''uid'')
          (group m ''name'')) e
     else
     let m = re_match mapping_pat line in
     if m \<noteq> None then
       call_and_mark f line (add_mapping (geti m ''ctx'') (geti m ''uid'')) e
     else
     let m = re_match close_pat line in
     if m \<noteq> None then
       call_and_mark f line (add_close (geti m ''ctx'') (geti m ''uid'')) e
     else
     let m = re_match copy_op_pat line in
     if m \<noteq> None then
       call_and_mark f line (add_copy_op (geti m ''ctx'') (geti m ''uid'')) e
     else
     let m = re_match slice_point_pat line in
     if m \<noteq> None then
       call_and_mark f line (add_slice_point (geti m ''slice'') (geti m ''point'')
          (geti m ''dim'') (geti m ''val1'') (geti m ''val2'') (geti m ''val3'')) e
     else
     let m = re_match point_point_pat line in
     if m \<noteq> None then
       call_and_mark f line (add_point_point (geti m ''point1'') (geti m ''point2'')) e
     else
     let m = re_match requirement_pat line in
     if m \<noteq> None then
       call_and_mark f line (add_requirement (geti m ''uid'') (geti m ''index'')
          (geti m ''is_reg'' = 1) (geti m ''ispace'') (geti m ''fspace'') (geti m ''tid'')
          (geti m ''priv'') (geti m ''coher'') (geti m ''redop'')) e
     else
     let m = re_match req_field_pat line in
     if m \<noteq> None then
       call_and_mark f line (add_req_field (geti m ''uid'') (geti m ''index'')
          (geti m ''fid'')) e
     else
     let m = re_match mapping_dep_pat line in
     if m \<noteq> None then
       call_and_mark f line (add_mapping_dependence (geti m ''ctx'') (geti m ''prev_id'')
          (geti m ''pidx'') (geti m ''next_id'') (geti m ''nidx'') (geti m ''dtype'')) e
     else
     let m = re_match task_inst_req_pat line in
     if m \<noteq> None then
       call_and_mark f line (add_instance_requirement (geti m ''uid'') (geti m ''idx'')
          (geti m ''index'')) e
     else
     let m = re_match op_event_pat line in
     if m \<noteq> None then
       call_and_mark f line (add_op_events (geti m ''uid'') (geti m ''startid'')
          (geti m ''startgen'') (geti m ''termid'') (geti m ''termgen'')) e
     else
     let m = re_match copy_event_pat line in
     if m \<noteq> None then
       call_and_mark f line (add_copy_events (geti m ''srcman'') (geti m ''dstman'')
          (geti m ''index'') (geti m ''field'') (geti m ''tree'') (geti m ''startid'')
          (geti m ''startgen'') (geti m ''termid'') (geti m ''termgen'') (geti m ''redop'')
          (group m ''mask'')) e
     else
     let m = re_match physical_inst_pat line in
     if m \<noteq> None then
       call_and_mark f line (add_physical_instance (geti m ''iid'') (geti m ''mid'')
          (geti m ''index'') (geti m ''field'') (geti m ''tid'')) e
     else
     let m = re_match physical_reduc_pat line in
     if m \<noteq> None then
       call_and_mark f line (add_reduction_instance (geti m ''iid'') (geti m ''mid'')
          (geti m ''index'') (geti m ''field'') (geti m ''tid'') (geti m ''fold'' = 1)
          (geti m ''indirect'')) e
     else
     let m = re_match op_user_pat line in
     if m \<noteq> None then
       call_and_mark f line (add_op_user (geti m ''uid'') (geti m ''idx'') (geti m ''iid'')) e
     else
     e)"

text \<open>
  \<^verbatim>\<open>for line in to_delete: replay_lines.remove(line)\<close>. \<^verbatim>\<open>list.remove\<close> deletes the first
  occurrence and raises \<^verbatim>\<open>ValueError\<close> when there is none; the list is returned as it is
  when the loop stops.
\<close>

fun remove_lines :: "string list \<Rightarrow> string list \<Rightarrow> error option \<times> string list" where
  "remove_lines [] rl = (None, rl)"
| "remove_lines (x # xs) rl =
     (if x \<in> set rl then remove_lines xs (remove1 x rl) else (Some ValueError, rl))"

text \<open>One run of \<^verbatim>\<open>for line in replay_lines\<close>, after \<^verbatim>\<open>to_delete = set()\<close>.\<close>

definition replay_pass :: "'st methods \<Rightarrow> 'st env \<Rightarrow> 'st env" where
  "replay_pass f e =
     foldl (\<lambda>e line. replay_line f line e) (e\<lparr>to_delete := []\<rparr>) (replay_lines e)"

definition no_progress :: string where
  "no_progress = ''ERROR: NO PROGRESS PARSING! BUG IN LEGION SPY LOGGING ASSUMPTIONS!''"

text \<open>
  Both loop bodies are chains of \<^verbatim>\<open>m = pat.match(line)\<close>, \<^verbatim>\<open>if m <> None: ... continue\<close>.
  A property of a chain is proved link by link.
\<close>

lemma chain_rule:
  "(x \<noteq> None \<Longrightarrow> P (A x)) \<Longrightarrow> (x = None \<Longrightarrow> P B) \<Longrightarrow>
   P (let m = x in if m \<noteq> None then A m else B)"
  by (simp add: Let_def)

lemma call_and_mark_replay_lines: "replay_lines (call_and_mark f line c e) = replay_lines e"
  by (simp add: call_and_mark_def split: prod.split)

lemma replay_line_replay_lines [simp]:
  "replay_lines (replay_line f line e) = replay_lines e"
  unfolding replay_line_def
  by (intro chain_rule [where P = "\<lambda>e'. replay_lines e' = replay_lines e"]
        call_and_mark_replay_lines refl)

lemma replay_pass_replay_lines [simp]: "replay_lines (replay_pass f e) = replay_lines e"
proof -
  have "replay_lines (foldl (\<lambda>e line. replay_line f line e) e' ls) = replay_lines e'"
    for e' :: "'a env" and ls
    by (induction ls arbitrary: e') simp_all
  then show ?thesis by (simp add: replay_pass_def)
qed

lemma remove_lines_length:
  "remove_lines td rl = (None, rl') \<Longrightarrow> length rl' + length td = length rl"
proof (induction td arbitrary: rl)
  case Nil
  then show ?case by simp
next
  case (Cons x td)
  then have x: "x \<in> set rl" and r: "remove_lines td (remove1 x rl) = (None, rl')"
    by (simp_all split: if_splits)
  from Cons.IH [OF r] x show ?case
    by (simp add: length_remove1) (metis One_nat_def Suc_pred length_pos_if_in_set)
qed

text \<open>
  The \<^verbatim>\<open>while len(replay_lines) > 0\<close> loop (lines 250 to 365) and \<^verbatim>\<open>return matches\<close>.
  \<^verbatim>\<open>assert False\<close> raises \<^verbatim>\<open>AssertionError\<close> (the interpreter is run without \<^verbatim>\<open>-O\<close>, as the
  first line of the script has it). The result is the value returned or the error raised,
  with the environment at that point.
\<close>

function replay_loop :: "'st methods \<Rightarrow> 'st env \<Rightarrow> (error + int) \<times> 'st env" where
  "replay_loop f e =
     (if length (replay_lines e) > 0 then
        let e1 = replay_pass f e in
        if length (to_delete e1) = 0 then
          (Inl AssertionError, e1\<lparr>stdout := stdout e1 @ [no_progress]\<rparr>)
        else
          case remove_lines (to_delete e1) (replay_lines e1) of
            (Some err, rl) \<Rightarrow> (Inl err, e1\<lparr>replay_lines := rl\<rparr>)
          | (None, rl) \<Rightarrow> replay_loop f (e1\<lparr>replay_lines := rl\<rparr>)
      else (Inr (matches e), e))"
  by pat_completeness auto
termination
proof (relation "measure (\<lambda>(f, e). length (replay_lines e))", goal_cases)
  case 1
  show ?case by simp
next
  case (2 f e e1 x rl)
  then have "remove_lines (to_delete (replay_pass f e)) (replay_lines e) = (None, rl)"
    and "to_delete (replay_pass f e) \<noteq> []"
    by simp_all
  from remove_lines_length [OF this(1)] this(2) show ?case
    by (cases "to_delete (replay_pass f e)") simp_all
qed

declare replay_loop.simps [simp del]

text \<open>
  \<^verbatim>\<open>parse_log_file(file_name, state)\<close>, with the lines of the file in place of its name: each
  ends with its newline, as iterating over a Python file gives them.
\<close>

definition initial_scan :: "'st methods \<Rightarrow> string list \<Rightarrow> 'st \<Rightarrow> 'st env" where
  "initial_scan f log s =
     foldl (\<lambda>e line. scan_line f line e)
       \<lparr>matches = 0, replay_lines = [], to_delete = [], state = s, stdout = []\<rparr> log"

definition parse_log_file :: "'st methods \<Rightarrow> string list \<Rightarrow> 'st \<Rightarrow> (error + int) \<times> 'st env" where
  "parse_log_file f log s = replay_loop f (initial_scan f log s)"

section \<open>The two chains read as tables\<close>

text \<open>
  Each link of a chain tries one pattern and, when it matches, makes one call with the
  groups of the match. A table lists the links of a chain in the order of the source: the
  pattern, the call, and for the first loop whether the link tests what the call returns.
  \<open>scan_line_table\<close> and \<open>replay_line_table\<close> below prove that the tables are the chains.
\<close>

type_synonym mk_call = "groups option \<Rightarrow> call"

definition scan_table :: "(re list \<times> mk_call \<times> bool) list" where
  "scan_table = [
    (utility_pat,
      (\<lambda>m. add_utility (geti m ''pid'')), False),
    (processor_pat,
      (\<lambda>m. add_processor (geti m ''pid'') (geti m ''util'') (geti m ''kind'')), True),
    (memory_pat,
      (\<lambda>m. add_memory (geti m ''mid'') (geti m ''capacity'')), False),
    (proc_mem_pat,
      (\<lambda>m. set_proc_mem (geti m ''pid'') (geti m ''mid'') (geti m ''band'')
        (geti m ''lat'')), True),
    (mem_mem_pat,
      (\<lambda>m. set_mem_mem (geti m ''mone'') (geti m ''mtwo'') (geti m ''band'')
        (geti m ''lat'')), True),
    (top_index_pat,
      (\<lambda>m. add_index_space (geti m ''uid'')), False),
    (index_part_pat,
      (\<lambda>m. add_index_partition (geti m ''pid'') (geti m ''uid'')
        (geti m ''disjoint'' = 1) (geti m ''color'')), True),
    (index_subspace_pat,
      (\<lambda>m. add_index_subspace (geti m ''pid'') (geti m ''uid'') (geti m ''color'')), True),
    (field_space_pat,
      (\<lambda>m. add_field_space (geti m ''uid'')), False),
    (field_create_pat,
      (\<lambda>m. add_field (geti m ''uid'') (geti m ''fid'')), True),
    (region_pat,
      (\<lambda>m. add_region (geti m ''iid'') (geti m ''fid'') (geti m ''tid'')), True),
    (top_task_pat,
      (\<lambda>m. add_top_task (geti m ''tid'') (geti m ''uid'') (group m ''name'')), False),
    (single_task_pat,
      (\<lambda>m. add_single_task (geti m ''ctx'') (geti m ''tid'') (geti m ''uid'')
        (group m ''name'')), True),
    (index_task_pat,
      (\<lambda>m. add_index_task (geti m ''ctx'') (geti m ''tid'') (geti m ''uid'')
        (group m ''name'')), True),
    (mapping_pat,
      (\<lambda>m. add_mapping (geti m ''ctx'') (geti m ''uid'')), True),
    (close_pat,
      (\<lambda>m. add_close (geti m ''ctx'') (geti m ''uid'')), True),
    (copy_op_pat,
      (\<lambda>m. add_copy_op (geti m ''ctx'') (geti m ''uid'')), True),
    (deletion_pat,
      (\<lambda>m. add_deletion (geti m ''ctx'') (geti m ''uid'')), True),
    (index_slice_pat,
      (\<lambda>m. add_index_slice (geti m ''index'') (geti m ''slice'')), True),
    (slice_slice_pat,
      (\<lambda>m. add_slice_slice (geti m ''slice1'') (geti m ''slice2'')), True),
    (slice_point_pat,
      (\<lambda>m. add_slice_point (geti m ''slice'') (geti m ''point'') (geti m ''dim'')
        (geti m ''val1'') (geti m ''val2'') (geti m ''val3'')), True),
    (point_point_pat,
      (\<lambda>m. add_point_point (geti m ''point1'') (geti m ''point2'')), True),
    (requirement_pat,
      (\<lambda>m. add_requirement (geti m ''uid'') (geti m ''index'') (geti m ''is_reg'' = 1)
        (geti m ''ispace'') (geti m ''fspace'') (geti m ''tid'') (geti m ''priv'')
        (geti m ''coher'') (geti m ''redop'')), True),
    (req_field_pat,
      (\<lambda>m. add_req_field (geti m ''uid'') (geti m ''index'') (geti m ''fid'')), True),
    (mapping_dep_pat,
      (\<lambda>m. add_mapping_dependence (geti m ''ctx'') (geti m ''prev_id'')
        (geti m ''pidx'') (geti m ''next_id'') (geti m ''nidx'') (geti m ''dtype'')), True),
    (task_inst_req_pat,
      (\<lambda>m. add_instance_requirement (geti m ''uid'') (geti m ''idx'')
        (geti m ''index'')), True),
    (event_event_pat,
      (\<lambda>m. add_event_dependence (geti m ''idone'') (geti m ''genone'')
        (geti m ''idtwo'') (geti m ''gentwo'')), False),
    (implicit_event_pat,
      (\<lambda>m. add_implicit_dependence (geti m ''idone'') (geti m ''genone'')
        (geti m ''idtwo'') (geti m ''gentwo'')), False),
    (op_event_pat,
      (\<lambda>m. add_op_events (geti m ''uid'') (geti m ''startid'') (geti m ''startgen'')
        (geti m ''termid'') (geti m ''termgen'')), True),
    (copy_event_pat,
      (\<lambda>m. add_copy_events (geti m ''srcman'') (geti m ''dstman'') (geti m ''index'')
        (geti m ''field'') (geti m ''tree'') (geti m ''startid'') (geti m ''startgen'')
        (geti m ''termid'') (geti m ''termgen'') (geti m ''redop'') (group m ''mask'')), True),
    (physical_inst_pat,
      (\<lambda>m. add_physical_instance (geti m ''iid'') (geti m ''mid'') (geti m ''index'')
        (geti m ''field'') (geti m ''tid'')), True),
    (physical_reduc_pat,
      (\<lambda>m. add_reduction_instance (geti m ''iid'') (geti m ''mid'') (geti m ''index'')
        (geti m ''field'') (geti m ''tid'') (geti m ''fold'' = 1) (geti m ''indirect'')), True),
    (op_user_pat,
      (\<lambda>m. add_op_user (geti m ''uid'') (geti m ''idx'') (geti m ''iid'')), True)]"

definition replay_table :: "(re list \<times> mk_call) list" where
  "replay_table = [
    (processor_pat,
      (\<lambda>m. add_processor (geti m ''pid'') (geti m ''util'') (geti m ''kind''))),
    (proc_mem_pat,
      (\<lambda>m. set_proc_mem (geti m ''pid'') (geti m ''mid'') (geti m ''band'')
        (geti m ''lat''))),
    (mem_mem_pat,
      (\<lambda>m. set_mem_mem (geti m ''mone'') (geti m ''mtwo'') (geti m ''band'')
        (geti m ''lat''))),
    (index_part_pat,
      (\<lambda>m. add_index_partition (geti m ''pid'') (geti m ''uid'')
        (geti m ''disjoint'' = 1) (geti m ''color''))),
    (index_subspace_pat,
      (\<lambda>m. add_index_subspace (geti m ''pid'') (geti m ''uid'') (geti m ''color''))),
    (single_task_pat,
      (\<lambda>m. add_single_task (geti m ''ctx'') (geti m ''tid'') (geti m ''uid'')
        (group m ''name''))),
    (index_task_pat,
      (\<lambda>m. add_index_task (geti m ''ctx'') (geti m ''tid'') (geti m ''uid'')
        (group m ''name''))),
    (mapping_pat,
      (\<lambda>m. add_mapping (geti m ''ctx'') (geti m ''uid''))),
    (close_pat,
      (\<lambda>m. add_close (geti m ''ctx'') (geti m ''uid''))),
    (copy_op_pat,
      (\<lambda>m. add_copy_op (geti m ''ctx'') (geti m ''uid''))),
    (slice_point_pat,
      (\<lambda>m. add_slice_point (geti m ''slice'') (geti m ''point'') (geti m ''dim'')
        (geti m ''val1'') (geti m ''val2'') (geti m ''val3''))),
    (point_point_pat,
      (\<lambda>m. add_point_point (geti m ''point1'') (geti m ''point2''))),
    (requirement_pat,
      (\<lambda>m. add_requirement (geti m ''uid'') (geti m ''index'') (geti m ''is_reg'' = 1)
        (geti m ''ispace'') (geti m ''fspace'') (geti m ''tid'') (geti m ''priv'')
        (geti m ''coher'') (geti m ''redop''))),
    (req_field_pat,
      (\<lambda>m. add_req_field (geti m ''uid'') (geti m ''index'') (geti m ''fid''))),
    (mapping_dep_pat,
      (\<lambda>m. add_mapping_dependence (geti m ''ctx'') (geti m ''prev_id'')
        (geti m ''pidx'') (geti m ''next_id'') (geti m ''nidx'') (geti m ''dtype''))),
    (task_inst_req_pat,
      (\<lambda>m. add_instance_requirement (geti m ''uid'') (geti m ''idx'')
        (geti m ''index''))),
    (op_event_pat,
      (\<lambda>m. add_op_events (geti m ''uid'') (geti m ''startid'') (geti m ''startgen'')
        (geti m ''termid'') (geti m ''termgen''))),
    (copy_event_pat,
      (\<lambda>m. add_copy_events (geti m ''srcman'') (geti m ''dstman'') (geti m ''index'')
        (geti m ''field'') (geti m ''tree'') (geti m ''startid'') (geti m ''startgen'')
        (geti m ''termid'') (geti m ''termgen'') (geti m ''redop'') (group m ''mask''))),
    (physical_inst_pat,
      (\<lambda>m. add_physical_instance (geti m ''iid'') (geti m ''mid'') (geti m ''index'')
        (geti m ''field'') (geti m ''tid''))),
    (physical_reduc_pat,
      (\<lambda>m. add_reduction_instance (geti m ''iid'') (geti m ''mid'') (geti m ''index'')
        (geti m ''field'') (geti m ''tid'') (geti m ''fold'' = 1) (geti m ''indirect''))),
    (op_user_pat,
      (\<lambda>m. add_op_user (geti m ''uid'') (geti m ''idx'') (geti m ''iid'')))]"

fun first_match :: "(re list \<times> 'a) list \<Rightarrow> string \<Rightarrow> (groups option \<times> 'a) option" where
  "first_match [] line = None"
| "first_match ((p, a) # rows) line =
     (let m = re_match p line in if m \<noteq> None then Some (m, a) else first_match rows line)"

definition scan_row ::
  "'st methods \<Rightarrow> string \<Rightarrow> 'st env \<Rightarrow> (groups option \<times> mk_call \<times> bool) option \<Rightarrow> 'st env" where
  "scan_row f line e r =
     (case r of
        None \<Rightarrow> e\<lparr>matches := matches e - 1,
                  stdout := stdout e @ [''Skipping unmatched line: '' @ line]\<rparr>
      | Some (m, mk, tested) \<Rightarrow>
          if tested then call_or_defer f line (mk m) e else call_ignored f (mk m) e)"

definition replay_row ::
  "'st methods \<Rightarrow> string \<Rightarrow> 'st env \<Rightarrow> (groups option \<times> mk_call) option \<Rightarrow> 'st env" where
  "replay_row f line e r =
     (case r of None \<Rightarrow> e | Some (m, mk) \<Rightarrow> call_and_mark f line (mk m) e)"

section \<open>Notions used to state and prove the properties\<close>

text \<open>
  A line is classified when some pattern of the source matches it. \<open>tested_pats\<close> are the
  patterns of the links of the first loop that test what the call returns, \<open>ignored_pats\<close>
  those of the links that do not. \<open>skipping line\<close> is what the first loop prints for an
  unmatched line.
\<close>

definition classified :: "string \<Rightarrow> bool" where
  "classified line = list_ex (\<lambda>p. re_match p line \<noteq> None) pats"

definition ignored_pats :: "re list list" where
  "ignored_pats = map fst (filter (\<lambda>(p, mk, tested). \<not> tested) scan_table)"

definition tested_pats :: "re list list" where
  "tested_pats = map fst (filter (\<lambda>(p, mk, tested). tested) scan_table)"

definition skipping :: "string \<Rightarrow> string" where
  "skipping line = ''Skipping unmatched line: '' @ line"

text \<open>
  The rest of a line after the common prefix, and its keyword: the text between the prefix
  and the first digit. \<open>kw_of\<close> reads the keyword off a pattern, and \<open>shape\<close> says that a
  pattern is the prefix, a keyword without digits, and a group of digits, followed by
  anything.
\<close>

definition after_prefix :: "string \<Rightarrow> string option" where
  "after_prefix s =
     (case strip ''['' s of None \<Rightarrow> None | Some s1 \<Rightarrow>
      if takeWhile (in_cls Digit) s1 = [] then None else
      case strip '' - '' (dropWhile (in_cls Digit) s1) of None \<Rightarrow> None | Some s2 \<Rightarrow>
      if takeWhile (in_cls Hex) s2 = [] then None else
      case strip ''] {'' (dropWhile (in_cls Hex) s2) of None \<Rightarrow> None | Some s3 \<Rightarrow>
      if takeWhile (in_cls Word) s3 = [] then None else
      strip ''}{legion_spy}: '' (dropWhile (in_cls Word) s3))"

definition keyword :: "string \<Rightarrow> string option" where
  "keyword s = map_option (takeWhile (\<lambda>c. \<not> in_cls Digit c)) (after_prefix s)"

definition kw_of :: "re list \<Rightarrow> string" where
  "kw_of p = (case drop 7 p of Lit k # _ \<Rightarrow> k | _ \<Rightarrow> [])"

fun body_shape :: "re list \<Rightarrow> bool" where
  "body_shape (Lit k # Plus g Digit # rest) = list_all (\<lambda>c. \<not> in_cls Digit c) k"
| "body_shape body = False"

definition shape :: "re list \<Rightarrow> bool" where
  "shape p = (take 7 p = prefix \<and> body_shape (drop 7 p))"

text \<open>
  The passes of the replay loop. A pass is stalled when it starts with a non-empty
  \<^verbatim>\<open>replay_lines\<close> and ends with an empty \<^verbatim>\<open>to_delete\<close>. \<open>removed f e\<close> is the environment after
  a pass and the deletion of its \<^verbatim>\<open>to_delete\<close>. \<open>run_passes f n e\<close> is the environment after \<open>n\<close>
  passes from \<open>e\<close>, provided each of them started with a non-empty list and was not stalled:
  these are the passes after which the loop goes on. \<open>aborted e\<close> is \<open>e\<close> after the print of
  the error message.
\<close>

definition stalled :: "'st methods \<Rightarrow> 'st env \<Rightarrow> bool" where
  "stalled f e = (replay_lines e \<noteq> [] \<and> to_delete (replay_pass f e) = [])"

definition removed :: "'st methods \<Rightarrow> 'st env \<Rightarrow> 'st env" where
  "removed f e =
     (let e1 = replay_pass f e
      in e1\<lparr>replay_lines := snd (remove_lines (to_delete e1) (replay_lines e1))\<rparr>)"

fun run_passes :: "'st methods \<Rightarrow> nat \<Rightarrow> 'st env \<Rightarrow> 'st env option" where
  "run_passes f 0 e = Some e"
| "run_passes f (Suc n) e =
     (if replay_lines e = [] \<or> stalled f e then None else run_passes f n (removed f e))"

definition aborted :: "'st env \<Rightarrow> 'st env" where
  "aborted e = e\<lparr>stdout := stdout e @ [no_progress]\<rparr>"

text \<open>Two environments that differ at most in what has been printed.\<close>

definition same_run :: "'st env \<Rightarrow> 'st env \<Rightarrow> bool" where
  "same_run e e' =
     (matches e = matches e' \<and> replay_lines e = replay_lines e' \<and>
      to_delete e = to_delete e' \<and> state e = state e')"

subsection \<open>Examples\<close>

text \<open>
  Two state objects for examples. \<open>refusing\<close> answers false to every call and keeps the
  calls it received. \<open>toy\<close> keeps the calls it received with its answers: a processor needs
  its utility processor, an affinity its processor and its memory, a field its field space;
  every other call succeeds.
\<close>

definition refusing :: "call list methods" where
  "refusing c h = (False, h @ [c])"

fun is_processor :: "int \<Rightarrow> call \<times> bool \<Rightarrow> bool" where
  "is_processor p (add_processor p' u k, ok) = (ok \<and> p' = p)"
| "is_processor p other = False"

fun is_memory :: "int \<Rightarrow> call \<times> bool \<Rightarrow> bool" where
  "is_memory m (add_memory m' cap, ok) = (ok \<and> m' = m)"
| "is_memory m other = False"

fun ready :: "call \<Rightarrow> (call \<times> bool) list \<Rightarrow> bool" where
  "ready (add_processor p u k) h = ((add_utility u, True) \<in> set h)"
| "ready (set_proc_mem p m b l) h = (list_ex (is_processor p) h \<and> list_ex (is_memory m) h)"
| "ready (add_field fs fid) h = ((add_field_space fs, True) \<in> set h)"
| "ready c h = True"

definition toy :: "(call \<times> bool) list methods" where
  "toy c h = (ready c h, h @ [(c, ready c h)])"

text \<open>Lines of a log, each with its newline.\<close>

definition ln :: "string \<Rightarrow> string" where
  "ln s = s @ [CHR 0x0A]"

definition ex_proc_mem :: string where
  "ex_proc_mem = ln ''[0 - 7f3a] {3}{legion_spy}: Processor Memory 7 3 10 5''"

definition ex_memory :: string where
  "ex_memory = ln ''[0 - 7f3a] {3}{legion_spy}: Memory 3 1024''"

definition ex_utility :: string where
  "ex_utility = ln ''[0 - 7f3a] {3}{legion_spy}: Utility 0''"

definition ex_processor :: string where
  "ex_processor = ln ''[0 - 7f3a] {3}{legion_spy}: Processor 7 0 1''"

definition ex_field :: string where
  "ex_field = ln ''[0 - 7f3a] {3}{legion_spy}: Field Creation 1 2''"

definition ex_field_space :: string where
  "ex_field_space = ln ''[0 - 7f3a] {3}{legion_spy}: Field Space 1''"

definition ex_subspace :: string where
  "ex_subspace = ln ''[0 - 7f3a] {3}{legion_spy}: Index Subspace 5 6 0''"

definition ex_event :: string where
  "ex_event = ln ''[0 - 7f3a] {3}{legion_spy}: Event Event 1 0 2 0''"

definition ex_junk :: string where
  "ex_junk = ln ''Legion runtime starting''"

definition ex_env :: "(call \<times> bool) list env" where
  "ex_env = \<lparr>matches = 0, replay_lines = [], to_delete = [], state = [], stdout = []\<rparr>"

section \<open>Matching\<close>

text \<open>
  In every pattern a \<^verbatim>\<open>+\<close> is followed by the end of the pattern or by a literal character
  outside its class, so giving characters back never finds another match: the rules below
  compute \<open>re_match\<close> in one pass from left to right.
\<close>

lemma concat_only_last:
  assumes "\<And>n. 1 \<le> n \<Longrightarrow> n < N \<Longrightarrow> h n = []"
  shows "concat (map h (rev [1 ..< Suc N])) = (if N = 0 then [] else h N)"
proof (cases N)
  case 0
  then show ?thesis by simp
next
  case (Suc k)
  have "concat (map h (rev [1 ..< N])) = []"
    using assms by (auto simp: concat_eq_Nil_conv)
  with Suc show ?thesis by simp
qed

lemma run_Plus_Lit:
  assumes "\<not> in_cls c x"
  shows "run (Plus g c # Lit (x # l) # rs) s =
         (if takeWhile (in_cls c) s = [] then []
          else map (bind g (takeWhile (in_cls c) s))
                 (run (Lit (x # l) # rs) (dropWhile (in_cls c) s)))"
proof -
  let ?N = "length (takeWhile (in_cls c) s)"
  let ?h = "\<lambda>n. map (bind g (take n s)) (run (Lit (x # l) # rs) (drop n s))"
  have short: "?h n = []" if "1 \<le> n" "n < ?N" for n
  proof -
    from that have "n < length s"
      using length_takeWhile_le [of "in_cls c" s] by simp
    then have d: "drop n s = (s ! n) # drop (Suc n) s"
      by (simp add: Cons_nth_drop_Suc)
    from that have "in_cls c (takeWhile (in_cls c) s ! n)"
      using nth_mem set_takeWhileD by metis
    with that have "in_cls c (s ! n)"
      by (simp add: takeWhile_nth)
    with assms have "s ! n \<noteq> x" by auto
    then show ?thesis by (simp add: d)
  qed
  have "run (Plus g c # Lit (x # l) # rs) s = concat (map ?h (rev [1 ..< Suc ?N]))"
    by simp
  also have "\<dots> = (if ?N = 0 then [] else ?h ?N)"
    using short by (rule concat_only_last)
  finally show ?thesis
    by (simp add: takeWhile_eq_take [symmetric] dropWhile_eq_drop [symmetric] del: run.simps)
qed

lemma first_map:
  "(case map h xs of [] \<Rightarrow> None | m # _ \<Rightarrow> Some m) =
   map_option h (case xs of [] \<Rightarrow> None | m # _ \<Rightarrow> Some m)"
  by (cases xs) simp_all

lemma re_match_Nil: "re_match [] s = Some []"
  by (simp add: re_match_def)

lemma re_match_Lit:
  "re_match (Lit l # rs) s = (case strip l s of None \<Rightarrow> None | Some s' \<Rightarrow> re_match rs s')"
  by (simp add: re_match_def split: option.split)

lemma re_match_One:
  "re_match (One g c # rs) s =
     (case s of [] \<Rightarrow> None
      | x # s' \<Rightarrow> if in_cls c x then map_option (bind g [x]) (re_match rs s') else None)"
  by (simp add: re_match_def first_map split: list.split)

lemma re_match_Plus_Lit:
  assumes "\<not> in_cls c x"
  shows "re_match (Plus g c # Lit (x # l) # rs) s =
     (if takeWhile (in_cls c) s = [] then None
      else map_option (bind g (takeWhile (in_cls c) s))
             (re_match (Lit (x # l) # rs) (dropWhile (in_cls c) s)))"
proof (cases "takeWhile (in_cls c) s = []")
  case True
  then show ?thesis
    unfolding re_match_def run_Plus_Lit [OF assms] by simp
next
  case False
  then show ?thesis
    unfolding re_match_def run_Plus_Lit [OF assms] by (simp only: first_map if_False)
qed

lemma run_Plus_end:
  "run [Plus g c] s =
   map (\<lambda>n. bind g (take n s) []) (rev [1 ..< Suc (length (takeWhile (in_cls c) s))])"
  by (simp add: concat_map_singleton)

lemma re_match_Plus_end:
  "re_match [Plus g c] s =
     (if takeWhile (in_cls c) s = [] then None else Some (bind g (takeWhile (in_cls c) s) []))"
proof (cases "length (takeWhile (in_cls c) s)")
  case 0
  then have "takeWhile (in_cls c) s = []" by simp
  then show ?thesis
    unfolding re_match_def run_Plus_end by simp
next
  case (Suc k)
  then have ne: "takeWhile (in_cls c) s \<noteq> []" by auto
  have tk: "take (Suc k) s = takeWhile (in_cls c) s"
    by (metis Suc takeWhile_eq_take)
  have "rev [1 ..< Suc (Suc k)] = Suc k # rev [1 ..< Suc k]"
    by simp
  then have "run [Plus g c] s =
      bind g (take (Suc k) s) [] # map (\<lambda>n. bind g (take n s) []) (rev [1 ..< Suc k])"
    unfolding run_Plus_end Suc by (simp only: list.map)
  with ne tk show ?thesis
    unfolding re_match_def by (simp del: run.simps)
qed

lemma run_Plus_needs: "takeWhile (in_cls c) s = [] \<Longrightarrow> run (Plus g c # rs) s = []"
  by simp

lemma re_match_Plus_needs:
  "re_match (Plus g c # rs) s \<noteq> None \<Longrightarrow> takeWhile (in_cls c) s \<noteq> []"
  using run_Plus_needs [of c s g rs] by (auto simp: re_match_def simp del: run.simps)

lemma re_match_prefix:
  "(re_match (prefix @ body) s = None) =
   (case after_prefix s of None \<Rightarrow> True | Some r \<Rightarrow> re_match body r = None)"
  unfolding prefix_def after_prefix_def
  by (simp add: re_match_Lit re_match_Plus_Lit split: option.split)

lemma strip_Some: "strip l s = Some r \<Longrightarrow> s = l @ r"
  by (induction l s rule: strip.induct) (auto split: if_splits)

lemma keyword_of_match:
  assumes m: "re_match (prefix @ Lit k # Plus g Digit # rest) s \<noteq> None"
    and k: "list_all (\<lambda>c. \<not> in_cls Digit c) k"
  shows "keyword s = Some k"
proof -
  from m obtain r where r: "after_prefix s = Some r"
    and b: "re_match (Lit k # Plus g Digit # rest) r \<noteq> None"
    by (auto simp: re_match_prefix split: option.splits)
  from b obtain r' where s: "strip k r = Some r'" and p: "re_match (Plus g Digit # rest) r' \<noteq> None"
    by (auto simp: re_match_Lit split: option.splits)
  from re_match_Plus_needs [OF p] obtain d t where r': "r' = d # t" and d: "in_cls Digit d"
    by (cases r') (auto split: if_splits)
  from strip_Some [OF s] r' have "r = k @ d # t" by simp
  with k d have "takeWhile (\<lambda>c. \<not> in_cls Digit c) r = k"
    by (simp add: takeWhile_append2 list_all_iff del: in_cls.simps)
  with r show ?thesis by (simp add: keyword_def)
qed

lemma shape_keyword:
  assumes "shape p" and "re_match p s \<noteq> None"
  shows "keyword s = Some (kw_of p)"
proof -
  from assms(1) have t: "take 7 p = prefix" and b: "body_shape (drop 7 p)"
    by (simp_all add: shape_def)
  from b obtain k g rest where d: "drop 7 p = Lit k # Plus g Digit # rest"
    and k: "list_all (\<lambda>c. \<not> in_cls Digit c) k"
    by (rule body_shape.elims(2)) (simp del: in_cls.simps)
  have "p = take 7 p @ drop 7 p" by simp
  with d t have p: "p = prefix @ Lit k # Plus g Digit # rest" by simp
  from d have "kw_of p = k" by (simp add: kw_of_def)
  with keyword_of_match [OF assms(2) [unfolded p] k] show ?thesis by simp
qed

lemma pats_shape: "list_all shape pats"
  by code_simp

lemma pats_keywords: "distinct (map kw_of pats)"
  by code_simp

lemma pats_distinct: "distinct pats"
  using pats_keywords by (simp only: distinct_map)

lemma pats_exclusive:
  assumes "p \<in> set pats" "q \<in> set pats" "re_match p s \<noteq> None" "re_match q s \<noteq> None"
  shows "p = q"
proof -
  from assms(1,2) pats_shape have "shape p" "shape q"
    by (simp_all add: list_all_iff)
  from shape_keyword [OF this(1) assms(3)] shape_keyword [OF this(2) assms(4)]
  have "kw_of p = kw_of q" by simp
  moreover from pats_keywords have "inj_on kw_of (set pats)"
    by (simp add: distinct_map)
  ultimately show ?thesis using assms(1,2) by (auto dest: inj_onD)
qed

lemma others_None:
  "p \<in> set pats \<Longrightarrow> re_match p s \<noteq> None \<Longrightarrow> q \<in> set pats \<Longrightarrow> q \<noteq> p \<Longrightarrow>
   re_match q s = None"
  using pats_exclusive by blast

lemmas pats_neq = pats_distinct [unfolded pats_def, simplified]


section \<open>The chains and their tables\<close>

lemma table_step:
  "(re_match p line \<noteq> None \<Longrightarrow> A (re_match p line) = h (Some (re_match p line, a))) \<Longrightarrow>
   (re_match p line = None \<Longrightarrow> B = h (first_match rows line)) \<Longrightarrow>
   (let m = re_match p line in if m \<noteq> None then A m else B) =
   h (first_match ((p, a) # rows) line)"
  by (simp add: Let_def)

lemma scan_line_table:
  "scan_line f line e = scan_row f line (e\<lparr>matches := matches e + 1\<rparr>) (first_match scan_table line)"
  unfolding scan_line_def scan_table_def Let_def [of "e\<lparr>matches := matches e + 1\<rparr>"]
  by (intro table_step [where h = "scan_row f line (e\<lparr>matches := matches e + 1\<rparr>)"])
     (simp_all add: scan_row_def)

lemma replay_line_table:
  "replay_line f line e = replay_row f line e (first_match replay_table line)"
  unfolding replay_line_def replay_table_def
  by (intro table_step [where h = "replay_row f line e"]) (simp_all add: replay_row_def)

lemma scan_table_pats: "map fst scan_table = pats"
  by (simp add: scan_table_def pats_def)

lemma replay_table_pats: "set (map fst replay_table) \<subseteq> set pats"
  by (simp add: replay_table_def pats_def)

lemma ignored_pats_eq:
  "ignored_pats = [utility_pat, memory_pat, top_index_pat, field_space_pat, top_task_pat,
                   event_event_pat, implicit_event_pat]"
  by (simp add: ignored_pats_def scan_table_def)

lemma first_match_None:
  "(first_match rows line = None) = list_all (\<lambda>p. re_match p line = None) (map fst rows)"
  by (induction rows) (auto simp: Let_def split: if_splits)

lemma first_match_Some:
  "first_match rows line = Some (m, a) \<Longrightarrow>
   \<exists>p. (p, a) \<in> set rows \<and> m = re_match p line \<and> m \<noteq> None"
proof (induction rows)
  case Nil
  then show ?case by simp
next
  case (Cons r rows)
  obtain q b where r: "r = (q, b)" by (cases r)
  show ?case
  proof (cases "re_match q line = None")
    case True
    with Cons.prems r have "first_match rows line = Some (m, a)"
      by (simp add: Let_def)
    from Cons.IH [OF this] show ?thesis by auto
  next
    case False
    with Cons.prems r have "m = re_match q line" "a = b"
      by (simp_all add: Let_def)
    with False r show ?thesis by auto
  qed
qed

lemma first_match_unique:
  assumes "(p, a) \<in> set rows" "re_match p line \<noteq> None"
    and "set (map fst rows) \<subseteq> set pats" "distinct (map fst rows)"
  shows "first_match rows line = Some (re_match p line, a)"
  using assms
proof (induction rows)
  case Nil
  then show ?case by simp
next
  case (Cons r rows)
  obtain q b where r: "r = (q, b)" by (cases r)
  show ?case
  proof (cases "q = p")
    case True
    with Cons.prems r have "b = a"
      by (auto simp: image_iff)
    with True r Cons.prems(2) show ?thesis by (simp add: Let_def)
  next
    case False
    from Cons.prems r have "q \<in> set pats" "p \<in> set pats"
      by (auto simp: image_iff subset_iff)
    with False Cons.prems(2) have "re_match q line = None"
      using others_None by blast
    moreover from False Cons.prems r have "(p, a) \<in> set rows" by auto
    ultimately show ?thesis
      using Cons.IH Cons.prems r by (simp add: Let_def)
  qed
qed

lemma unclassified_first_match: "(first_match scan_table line = None) = (\<not> classified line)"
  by (simp add: classified_def first_match_None scan_table_pats list_ex_iff list_all_iff)

lemma call_or_defer_fields:
  "matches (call_or_defer f line c e) = matches e"
  "stdout (call_or_defer f line c e) = stdout e"
  "to_delete (call_or_defer f line c e) = to_delete e"
  "state (call_or_defer f line c e) = snd (f c (state e))"
  "replay_lines (call_or_defer f line c e) =
     (if fst (f c (state e)) then replay_lines e else replay_lines e @ [line])"
  by (simp_all add: call_or_defer_def split: prod.split)

lemma call_ignored_fields:
  "matches (call_ignored f c e) = matches e"
  "stdout (call_ignored f c e) = stdout e"
  "to_delete (call_ignored f c e) = to_delete e"
  "state (call_ignored f c e) = snd (f c (state e))"
  "replay_lines (call_ignored f c e) = replay_lines e"
  by (simp_all add: call_ignored_def)

lemma call_and_mark_fields:
  "matches (call_and_mark f line c e) = matches e"
  "stdout (call_and_mark f line c e) = stdout e"
  "replay_lines (call_and_mark f line c e) = replay_lines e"
  "state (call_and_mark f line c e) = snd (f c (state e))"
  "to_delete (call_and_mark f line c e) =
     (if fst (f c (state e)) then List.insert line (to_delete e) else to_delete e)"
  by (simp_all add: call_and_mark_def split: prod.split)

lemma scan_line_unmatched:
  assumes "\<not> classified line"
  shows "scan_line f line e = e\<lparr>stdout := stdout e @ [skipping line]\<rparr>"
proof -
  from assms have "first_match scan_table line = None"
    by (simp add: unclassified_first_match)
  then show ?thesis
    by (simp add: scan_line_table scan_row_def skipping_def)
qed

lemma scan_line_classified:
  assumes "classified line"
  shows "\<exists>m mk tested. first_match scan_table line = Some (m, mk, tested) \<and>
           scan_line f line e =
             (if tested then call_or_defer f line (mk m) (e\<lparr>matches := matches e + 1\<rparr>)
              else call_ignored f (mk m) (e\<lparr>matches := matches e + 1\<rparr>))"
proof -
  from assms have "first_match scan_table line \<noteq> None"
    by (simp add: unclassified_first_match)
  then obtain m mk tested where "first_match scan_table line = Some (m, mk, tested)"
    by (cases "first_match scan_table line") auto
  then show ?thesis
    by (simp add: scan_line_table scan_row_def)
qed

lemma scan_line_matches:
  "matches (scan_line f line e) = matches e + (if classified line then 1 else 0)"
proof (cases "classified line")
  case True
  from scan_line_classified [OF this, of f e] True show ?thesis
    by (auto simp: call_or_defer_fields call_ignored_fields)
next
  case False
  then show ?thesis by (simp add: scan_line_unmatched)
qed

lemma scan_line_stdout:
  "stdout (scan_line f line e) = stdout e @ (if classified line then [] else [skipping line])"
proof (cases "classified line")
  case True
  from scan_line_classified [OF this, of f e] True show ?thesis
    by (auto simp: call_or_defer_fields call_ignored_fields)
next
  case False
  then show ?thesis by (simp add: scan_line_unmatched)
qed

lemma scan_line_to_delete: "to_delete (scan_line f line e) = to_delete e"
proof (cases "classified line")
  case True
  from scan_line_classified [OF this, of f e] True show ?thesis
    by (auto simp: call_or_defer_fields call_ignored_fields)
next
  case False
  then show ?thesis by (simp add: scan_line_unmatched)
qed

section \<open>The replay loop\<close>

lemma replay_line_cases:
  "replay_line f line e = e \<or>
   (\<exists>m mk. first_match replay_table line = Some (m, mk) \<and>
            replay_line f line e = call_and_mark f line (mk m) e)"
  by (cases "first_match replay_table line") (auto simp: replay_line_table replay_row_def)

lemma replay_line_fields:
  "matches (replay_line f line e) = matches e"
  "stdout (replay_line f line e) = stdout e"
  using replay_line_cases [of f line e] by (auto simp: call_and_mark_fields)

lemma replay_line_to_delete:
  "to_delete (replay_line f line e) = to_delete e \<or>
   to_delete (replay_line f line e) = List.insert line (to_delete e)"
  using replay_line_cases [of f line e] by (auto simp: call_and_mark_fields)

lemma foldl_replay_fields:
  "matches (foldl (\<lambda>e line. replay_line f line e) e ls) = matches e"
  "stdout (foldl (\<lambda>e line. replay_line f line e) e ls) = stdout e"
  by (induction ls arbitrary: e) (simp_all add: replay_line_fields)

lemma replay_pass_fields:
  "matches (replay_pass f e) = matches e"
  "stdout (replay_pass f e) = stdout e"
  by (simp_all add: replay_pass_def foldl_replay_fields)

lemma foldl_replay_to_delete:
  "distinct (to_delete e) \<Longrightarrow> set (to_delete e) \<subseteq> S \<Longrightarrow> set ls \<subseteq> S \<Longrightarrow>
   distinct (to_delete (foldl (\<lambda>e line. replay_line f line e) e ls)) \<and>
   set (to_delete (foldl (\<lambda>e line. replay_line f line e) e ls)) \<subseteq> S"
proof (induction ls arbitrary: e)
  case Nil
  then show ?case by simp
next
  case (Cons l ls)
  from replay_line_to_delete [of f l e] Cons.prems
  have "distinct (to_delete (replay_line f l e))" "set (to_delete (replay_line f l e)) \<subseteq> S"
    by auto
  with Cons.IH [of "replay_line f l e"] Cons.prems(3) show ?case by simp
qed

lemma replay_pass_to_delete:
  "distinct (to_delete (replay_pass f e))"
  "set (to_delete (replay_pass f e)) \<subseteq> set (replay_lines e)"
  using foldl_replay_to_delete [of "e\<lparr>to_delete := []\<rparr>" "set (replay_lines e)" "replay_lines e" f]
  by (simp_all add: replay_pass_def)

lemma remove_lines_ok:
  "distinct td \<Longrightarrow> set td \<subseteq> set rl \<Longrightarrow> fst (remove_lines td rl) = None"
proof (induction td arbitrary: rl)
  case Nil
  then show ?case by simp
next
  case (Cons x td)
  have "y \<in> set (remove1 x rl)" if "y \<in> set td" for y
  proof -
    from that Cons.prems have "y \<noteq> x" "y \<in> set rl" by auto
    then show ?thesis by (simp add: in_set_remove1)
  qed
  then have "set td \<subseteq> set (remove1 x rl)" by blast
  with Cons show ?case by simp
qed

lemma remove_lines_subset: "set (snd (remove_lines td rl)) \<subseteq> set rl"
proof (induction td arbitrary: rl)
  case Nil
  then show ?case by simp
next
  case (Cons x td)
  from Cons [of "remove1 x rl"] set_remove1_subset [of x rl] show ?case
    by auto
qed

text \<open>
  Python does not fix the order in which \<^verbatim>\<open>for line in to_delete\<close> visits a set. The order
  does not matter: any order of the same lines leaves the same \<^verbatim>\<open>replay_lines\<close>.
\<close>

lemma remove_lines_fold:
  "distinct td \<Longrightarrow> set td \<subseteq> set rl \<Longrightarrow> remove_lines td rl = (None, fold remove1 td rl)"
proof (induction td arbitrary: rl)
  case Nil
  then show ?case by simp
next
  case (Cons x td)
  have "y \<in> set (remove1 x rl)" if "y \<in> set td" for y
  proof -
    from that Cons.prems have "y \<noteq> x" "y \<in> set rl" by auto
    then show ?thesis by (simp add: in_set_remove1)
  qed
  then have "set td \<subseteq> set (remove1 x rl)" by blast
  with Cons show ?case by simp
qed

lemma remove_lines_any_order:
  assumes "distinct td" "set td \<subseteq> set rl" "mset td' = mset td"
  shows "remove_lines td' rl = remove_lines td rl"
proof -
  from assms(3) have s: "set td' = set td" by (rule mset_eq_setD)
  from assms(1,3) have d: "distinct td'"
    using mset_eq_imp_distinct_iff by blast
  have "fold remove1 td' rl = fold remove1 td rl"
    using assms(3) by (intro fun_cong [OF fold_multiset_equiv]) (auto simp: remove1_commute)
  with remove_lines_fold [OF assms(1,2)] remove_lines_fold [OF d] s assms(2)
  show ?thesis by simp
qed

lemma replay_pass_remove:
  "\<exists>rl. remove_lines (to_delete (replay_pass f e)) (replay_lines e) = (None, rl)"
  using remove_lines_ok [OF replay_pass_to_delete, of f e]
  by (cases "remove_lines (to_delete (replay_pass f e)) (replay_lines e)") simp

lemma replay_loop_empty:
  "replay_lines e = [] \<Longrightarrow> replay_loop f e = (Inr (matches e), e)"
  by (subst replay_loop.simps) simp

lemma replay_loop_stalled:
  "stalled f e \<Longrightarrow> replay_loop f e = (Inl AssertionError, aborted (replay_pass f e))"
  by (subst replay_loop.simps) (simp add: stalled_def aborted_def Let_def)

lemma replay_loop_progress:
  assumes "replay_lines e \<noteq> []" "\<not> stalled f e"
  shows "replay_loop f e = replay_loop f (removed f e)"
proof -
  from replay_pass_remove [of f e] obtain rl
    where rl: "remove_lines (to_delete (replay_pass f e)) (replay_lines e) = (None, rl)" ..
  from assms have "to_delete (replay_pass f e) \<noteq> []"
    by (simp add: stalled_def)
  with assms(1) rl show ?thesis
    by (subst replay_loop.simps) (simp add: removed_def Let_def)
qed

lemma removed_shorter:
  assumes "replay_lines e \<noteq> []" "\<not> stalled f e"
  shows "length (replay_lines (removed f e)) < length (replay_lines e)"
proof -
  from replay_pass_remove [of f e] obtain rl
    where rl: "remove_lines (to_delete (replay_pass f e)) (replay_lines e) = (None, rl)" ..
  from assms have "to_delete (replay_pass f e) \<noteq> []"
    by (simp add: stalled_def)
  with remove_lines_length [OF rl] have "length rl < length (replay_lines e)"
    by (cases "to_delete (replay_pass f e)") simp_all
  with rl show ?thesis by (simp add: removed_def Let_def)
qed

lemma removed_fields:
  "matches (removed f e) = matches e"
  "stdout (removed f e) = stdout e"
  "set (replay_lines (removed f e)) \<subseteq> set (replay_lines e)"
  using remove_lines_subset [of "to_delete (replay_pass f e)" "replay_lines e"]
  by (simp_all add: removed_def Let_def replay_pass_fields)

lemma loop_raises:
  "run_passes f n e = Some e' \<Longrightarrow> stalled f e' \<Longrightarrow>
   replay_loop f e = (Inl AssertionError, aborted (replay_pass f e'))"
proof (induction n arbitrary: e)
  case 0
  then show ?case by (simp add: replay_loop_stalled)
next
  case (Suc n)
  then have ne: "replay_lines e \<noteq> []" "\<not> stalled f e"
    and r: "run_passes f n (removed f e) = Some e'"
    by (simp_all split: if_splits)
  from Suc.IH [OF r Suc.prems(2)] replay_loop_progress [OF ne] show ?case by simp
qed

lemma loop_returns:
  "run_passes f n e = Some e' \<Longrightarrow> replay_lines e' = [] \<Longrightarrow>
   replay_loop f e = (Inr (matches e'), e')"
proof (induction n arbitrary: e)
  case 0
  then show ?case by (simp add: replay_loop_empty)
next
  case (Suc n)
  then have ne: "replay_lines e \<noteq> []" "\<not> stalled f e"
    and r: "run_passes f n (removed f e) = Some e'"
    by (simp_all split: if_splits)
  from Suc.IH [OF r Suc.prems(2)] replay_loop_progress [OF ne] show ?case by simp
qed

lemma loop_terminates:
  "\<exists>n e'. n \<le> length (replay_lines e) \<and> run_passes f n e = Some e' \<and>
          (replay_lines e' = [] \<or> stalled f e')"
proof (induction "length (replay_lines e)" arbitrary: e rule: less_induct)
  case less
  show ?case
  proof (cases "replay_lines e = [] \<or> stalled f e")
    case True
    then have "run_passes f 0 e = Some e \<and> (replay_lines e = [] \<or> stalled f e)" by simp
    then show ?thesis by blast
  next
    case False
    then have ne: "replay_lines e \<noteq> []" "\<not> stalled f e" by simp_all
    from less [OF removed_shorter [OF ne]] obtain n e'
      where n: "n \<le> length (replay_lines (removed f e))"
        and r: "run_passes f n (removed f e) = Some e'"
        and d: "replay_lines e' = [] \<or> stalled f e'"
      by blast
    from n removed_shorter [OF ne] have "Suc n \<le> length (replay_lines e)" by simp
    moreover from r False have "run_passes f (Suc n) e = Some e'" by simp
    ultimately show ?thesis using d by blast
  qed
qed

lemma run_passes_fields:
  "run_passes f n e = Some e' \<Longrightarrow>
   matches e' = matches e \<and> stdout e' = stdout e \<and> set (replay_lines e') \<subseteq> set (replay_lines e)"
proof (induction n arbitrary: e)
  case 0
  then show ?case by simp
next
  case (Suc n)
  then have r: "run_passes f n (removed f e) = Some e'"
    by (simp split: if_splits)
  from Suc.IH [OF r] removed_fields [of f e] show ?case by auto
qed

section \<open>The initial scan and the whole run\<close>

lemma initial_scan_matches_gen:
  "matches (foldl (\<lambda>e line. scan_line f line e) e log) =
   matches e + int (length (filter classified log))"
  by (induction log arbitrary: e) (simp_all add: scan_line_matches)

lemma initial_scan_matches:
  "matches (initial_scan f log s) = int (length (filter classified log))"
  by (simp add: initial_scan_def initial_scan_matches_gen)

lemma replay_loop_result:
  "\<exists>n e'. n \<le> length (replay_lines e) \<and> run_passes f n e = Some e' \<and>
     (replay_lines e' = [] \<and> replay_loop f e = (Inr (matches e'), e') \<or>
      stalled f e' \<and> replay_loop f e = (Inl AssertionError, aborted (replay_pass f e')))"
proof -
  from loop_terminates [of e f] obtain n e'
    where n: "n \<le> length (replay_lines e)" and r: "run_passes f n e = Some e'"
      and d: "replay_lines e' = [] \<or> stalled f e'"
    by blast
  from d loop_returns [OF r] loop_raises [OF r]
  have "replay_lines e' = [] \<and> replay_loop f e = (Inr (matches e'), e') \<or>
        stalled f e' \<and> replay_loop f e = (Inl AssertionError, aborted (replay_pass f e'))"
    by blast
  with n r show ?thesis by blast
qed

lemma replay_loop_matches:
  "replay_loop f e = (r, e') \<Longrightarrow> matches e' = matches e \<and> (\<forall>n. r = Inr n \<longrightarrow> n = matches e)"
  using replay_loop_result [of e f]
  by (auto simp: aborted_def replay_pass_fields dest: run_passes_fields)

lemma parse_log_file_result:
  "\<exists>n e. n \<le> length (replay_lines (initial_scan f log s)) \<and>
     run_passes f n (initial_scan f log s) = Some e \<and>
     (replay_lines e = [] \<and> parse_log_file f log s = (Inr (matches e), e) \<or>
      stalled f e \<and> parse_log_file f log s = (Inl AssertionError, aborted (replay_pass f e)))"
  unfolding parse_log_file_def by (rule replay_loop_result)

lemma scan_table_distinct: "distinct (map fst scan_table)"
  by (simp only: scan_table_pats pats_distinct)

lemma replay_table_distinct: "distinct (map fst replay_table)"
  by (simp add: replay_table_def pats_neq)

lemma first_match_perm:
  assumes "mset rows = mset tbl" "set (map fst tbl) \<subseteq> set pats" "distinct (map fst tbl)"
  shows "first_match rows line = first_match tbl line"
proof -
  from assms(1) have s: "set rows = set tbl" by (rule mset_eq_setD)
  from assms(1) have "mset (map fst rows) = mset (map fst tbl)" by simp
  with assms(3) have d: "distinct (map fst rows)"
    using mset_eq_imp_distinct_iff by blast
  from s assms(2) have p: "set (map fst rows) \<subseteq> set pats" by simp
  show ?thesis
  proof (cases "first_match tbl line")
    case None
    then have "list_all (\<lambda>p. re_match p line = None) (map fst tbl)"
      by (simp only: first_match_None)
    with s have "list_all (\<lambda>p. re_match p line = None) (map fst rows)"
      by (simp add: list_all_iff)
    then have "first_match rows line = None"
      by (simp only: first_match_None)
    with None show ?thesis by simp
  next
    case (Some r)
    obtain m a where r: "r = (m, a)" by (cases r)
    from first_match_Some [OF Some [unfolded r]] obtain q
      where q: "(q, a) \<in> set tbl" "m = re_match q line" "m \<noteq> None" by blast
    with s have "(q, a) \<in> set rows" "re_match q line \<noteq> None" by simp_all
    from first_match_unique [OF this p d] Some r q show ?thesis by simp
  qed
qed

lemma tested_patsI: "(p, mk, True) \<in> set scan_table \<Longrightarrow> p \<in> set tested_pats"
  by (force simp: tested_pats_def)

lemma tested_pats_classified:
  "p \<in> set tested_pats \<Longrightarrow> re_match p line \<noteq> None \<Longrightarrow> classified line"
  unfolding classified_def tested_pats_def list_ex_iff scan_table_pats [symmetric]
  by auto

lemma scan_line_replay_lines:
  "replay_lines (scan_line f line e) = replay_lines e \<or>
   list_ex (\<lambda>p. re_match p line \<noteq> None) tested_pats \<and>
   replay_lines (scan_line f line e) = replay_lines e @ [line]"
proof (cases "classified line")
  case False
  then show ?thesis by (simp add: scan_line_unmatched)
next
  case True
  from scan_line_classified [OF True, of f e] obtain m mk tested
    where fm: "first_match scan_table line = Some (m, mk, tested)"
      and sl: "scan_line f line e =
        (if tested then call_or_defer f line (mk m) (e\<lparr>matches := matches e + 1\<rparr>)
         else call_ignored f (mk m) (e\<lparr>matches := matches e + 1\<rparr>))"
    by blast
  show ?thesis
  proof (cases tested)
    case False
    with sl show ?thesis by (simp add: call_ignored_fields)
  next
    case True
    from first_match_Some [OF fm] True obtain p
      where "(p, mk, True) \<in> set scan_table" "re_match p line \<noteq> None" by auto
    then have "list_ex (\<lambda>p. re_match p line \<noteq> None) tested_pats"
      using tested_patsI by (auto simp: list_ex_iff)
    with sl True show ?thesis by (simp add: call_or_defer_fields)
  qed
qed

lemma foldl_scan_replay_lines:
  "l \<in> set (replay_lines (foldl (\<lambda>e line. scan_line f line e) e log)) \<Longrightarrow>
   l \<in> set (replay_lines e) \<or> list_ex (\<lambda>p. re_match p l \<noteq> None) tested_pats"
proof (induction log arbitrary: e)
  case Nil
  then show ?case by simp
next
  case (Cons x log)
  from Cons.IH [of "scan_line f x e"] Cons.prems
  have "l \<in> set (replay_lines (scan_line f x e)) \<or>
        list_ex (\<lambda>p. re_match p l \<noteq> None) tested_pats"
    by simp
  with scan_line_replay_lines [of f x e] show ?case by auto
qed

lemma initial_scan_deferred:
  "l \<in> set (replay_lines (initial_scan f log s)) \<Longrightarrow>
   list_ex (\<lambda>p. re_match p l \<noteq> None) tested_pats"
  using foldl_scan_replay_lines [of l f _ log] by (fastforce simp: initial_scan_def)

lemma replay_loop_replay_lines:
  "set (replay_lines (snd (replay_loop f e))) \<subseteq> set (replay_lines e)"
  using replay_loop_result [of e f]
  by (auto simp: aborted_def dest!: run_passes_fields)

lemma parse_log_file_deferred:
  "l \<in> set (replay_lines (snd (parse_log_file f log s))) \<Longrightarrow>
   list_ex (\<lambda>p. re_match p l \<noteq> None) tested_pats"
  using replay_loop_replay_lines [of f "initial_scan f log s"] initial_scan_deferred [of l f log s]
  by (auto simp: parse_log_file_def)

lemma unclassified_not_deferred:
  assumes "\<not> classified line"
  shows "line \<notin> set (replay_lines (initial_scan f log s))"
    and "line \<notin> set (replay_lines (snd (parse_log_file f log s)))"
  using assms initial_scan_deferred [of line f log s] parse_log_file_deferred [of line f log s]
    tested_pats_classified [of _ line]
  by (auto simp: list_ex_iff)

subsection \<open>Printing does not change a run\<close>

text \<open>What a run does apart from printing does not depend on what was printed before.\<close>

lemma same_run_refl: "same_run e e"
  by (simp add: same_run_def)

lemma same_run_call_or_defer:
  "same_run e e' \<Longrightarrow> same_run (call_or_defer f line c e) (call_or_defer f line c e')"
  by (simp add: same_run_def call_or_defer_fields)

lemma same_run_call_ignored:
  "same_run e e' \<Longrightarrow> same_run (call_ignored f c e) (call_ignored f c e')"
  by (simp add: same_run_def call_ignored_fields)

lemma same_run_call_and_mark:
  "same_run e e' \<Longrightarrow> same_run (call_and_mark f line c e) (call_and_mark f line c e')"
  by (simp add: same_run_def call_and_mark_fields)

lemma same_run_scan_line:
  assumes "same_run e e'"
  shows "same_run (scan_line f line e) (scan_line f line e')"
proof -
  from assms have "same_run (e\<lparr>matches := matches e + 1\<rparr>) (e'\<lparr>matches := matches e' + 1\<rparr>)"
    by (simp add: same_run_def)
  then show ?thesis
    unfolding scan_line_table scan_row_def
    by (auto split: option.splits intro: same_run_call_or_defer same_run_call_ignored)
       (simp add: same_run_def)
qed

lemma same_run_replay_line:
  assumes "same_run e e'"
  shows "same_run (replay_line f line e) (replay_line f line e')"
  using assms unfolding replay_line_table replay_row_def
  by (auto split: option.splits intro: same_run_call_and_mark)

lemma same_run_foldl_scan:
  "same_run e e' \<Longrightarrow>
   same_run (foldl (\<lambda>e line. scan_line f line e) e log)
            (foldl (\<lambda>e line. scan_line f line e) e' log)"
  by (induction log arbitrary: e e') (simp_all add: same_run_scan_line)

lemma same_run_foldl_replay:
  "same_run e e' \<Longrightarrow>
   same_run (foldl (\<lambda>e line. replay_line f line e) e ls)
            (foldl (\<lambda>e line. replay_line f line e) e' ls)"
  by (induction ls arbitrary: e e') (simp_all add: same_run_replay_line)

lemma same_run_replay_pass:
  assumes "same_run e e'"
  shows "same_run (replay_pass f e) (replay_pass f e')"
proof -
  from assms have "same_run (e\<lparr>to_delete := []\<rparr>) (e'\<lparr>to_delete := []\<rparr>)"
    and "replay_lines e = replay_lines e'"
    by (simp_all add: same_run_def)
  then show ?thesis
    by (simp add: replay_pass_def same_run_foldl_replay)
qed

lemma same_run_stalled: "same_run e e' \<Longrightarrow> stalled f e = stalled f e'"
  using same_run_replay_pass [of e e' f] by (simp add: stalled_def same_run_def)

lemma same_run_removed:
  assumes "same_run e e'"
  shows "same_run (removed f e) (removed f e')"
  using same_run_replay_pass [OF assms, of f]
  by (simp add: removed_def Let_def same_run_def)

lemma same_run_loop:
  "same_run e e' \<Longrightarrow>
   fst (replay_loop f e) = fst (replay_loop f e') \<and>
   same_run (snd (replay_loop f e)) (snd (replay_loop f e'))"
proof (induction "length (replay_lines e)" arbitrary: e e' rule: less_induct)
  case less
  from less.prems have rl: "replay_lines e = replay_lines e'" and m: "matches e = matches e'"
    by (simp_all add: same_run_def)
  show ?case
  proof (cases "replay_lines e = []")
    case True
    with rl m less.prems show ?thesis by (simp add: replay_loop_empty)
  next
    case ne: False
    show ?thesis
    proof (cases "stalled f e")
      case True
      with same_run_stalled [OF less.prems, of f] have "stalled f e'" by simp
      with True same_run_replay_pass [OF less.prems, of f] show ?thesis
        by (simp add: replay_loop_stalled aborted_def same_run_def)
    next
      case False
      with same_run_stalled [OF less.prems, of f] have "\<not> stalled f e'" by simp
      with ne rl have "replay_loop f e' = replay_loop f (removed f e')"
        by (simp add: replay_loop_progress)
      moreover from ne False have "replay_loop f e = replay_loop f (removed f e)"
        by (simp add: replay_loop_progress)
      moreover note less.hyps [OF removed_shorter [OF ne False] same_run_removed [OF less.prems]]
      ultimately show ?thesis by simp
    qed
  qed
qed

lemma skip_line_same_run:
  assumes "\<not> classified line"
  shows "same_run (initial_scan f (pre @ line # post) s) (initial_scan f (pre @ post) s)"
proof -
  let ?e = "foldl (\<lambda>e line. scan_line f line e)
     \<lparr>matches = 0, replay_lines = [], to_delete = [], state = s, stdout = []\<rparr> pre"
  have "same_run (scan_line f line ?e) ?e"
    by (simp add: scan_line_unmatched [OF assms] same_run_def)
  then show ?thesis
    by (simp add: initial_scan_def same_run_foldl_scan)
qed

subsection \<open>The rows of the tables\<close>

lemma pats_distinct_rev: "distinct (rev pats)"
  using pats_distinct by simp

lemmas pats_neq_rev = pats_distinct_rev [unfolded pats_def rev.simps append.simps, simplified]

lemma scan_line_row:
  assumes "(p, mk, tested) \<in> set scan_table" "re_match p line \<noteq> None"
  shows "scan_line f line e =
     (if tested then call_or_defer f line (mk (re_match p line)) (e\<lparr>matches := matches e + 1\<rparr>)
      else call_ignored f (mk (re_match p line)) (e\<lparr>matches := matches e + 1\<rparr>))"
proof -
  have "set (map fst scan_table) \<subseteq> set pats"
    by (simp only: scan_table_pats subset_refl)
  from first_match_unique [OF assms this scan_table_distinct] show ?thesis
    by (simp add: scan_line_table scan_row_def)
qed

lemma replay_line_row:
  assumes "(p, mk) \<in> set replay_table" "re_match p line \<noteq> None"
  shows "replay_line f line e = call_and_mark f line (mk (re_match p line)) e"
  using first_match_unique [OF assms replay_table_pats replay_table_distinct]
  by (simp add: replay_line_table replay_row_def)

lemma replay_rows_in_scan: "list_all (\<lambda>(p, mk). (p, mk, True) \<in> set scan_table) replay_table"
  by (simp add: replay_table_def scan_table_def)

lemma replay_row_in_scan: "(p, mk) \<in> set replay_table \<Longrightarrow> (p, mk, True) \<in> set scan_table"
  using replay_rows_in_scan by (auto simp: list_all_iff)

lemma replay_line_no_branch:
  assumes "p \<in> set pats" "p \<notin> set (map fst replay_table)" "re_match p line \<noteq> None"
  shows "replay_line f line e = e"
proof -
  have "re_match q line = None" if "q \<in> set (map fst replay_table)" for q
  proof -
    from that replay_table_pats have "q \<in> set pats" by blast
    moreover from that assms(2) have "q \<noteq> p" by auto
    ultimately show ?thesis using others_None [OF assms(1,3)] by blast
  qed
  then have "first_match replay_table line = None"
    by (simp add: first_match_None list_all_iff)
  then show ?thesis by (simp add: replay_line_table replay_row_def)
qed

lemma not_replayed:
  "filter (\<lambda>p. p \<notin> set (map fst replay_table)) tested_pats =
     [field_create_pat, region_pat, deletion_pat, index_slice_pat, slice_slice_pat]"
  by (simp add: tested_pats_def scan_table_def replay_table_def pats_neq pats_neq_rev)

lemma ignored_pats_in_pats: "set ignored_pats \<subseteq> set pats"
  unfolding ignored_pats_def scan_table_pats [symmetric] by auto

lemma ignored_not_tested:
  assumes "p \<in> set ignored_pats"
  shows "p \<notin> set tested_pats"
proof
  assume "p \<in> set tested_pats"
  then obtain mk where t: "(p, mk, True) \<in> set scan_table"
    by (auto simp: tested_pats_def)
  from assms obtain mk' where i: "(p, mk', False) \<in> set scan_table"
    by (auto simp: ignored_pats_def)
  from eq_key_imp_eq_value [OF scan_table_distinct t i] show False by simp
qed

lemma tested_pats_in_pats: "set tested_pats \<subseteq> set pats"
  unfolding tested_pats_def scan_table_pats [symmetric] by auto

lemma ignored_row:
  assumes "p \<in> set ignored_pats"
  shows "\<exists>mk. (p, mk, False) \<in> set scan_table"
  using assms by (auto simp: ignored_pats_def)

lemma ignored_never_deferred:
  assumes "p \<in> set ignored_pats" "re_match p line \<noteq> None"
  shows "line \<notin> set (replay_lines (initial_scan f log s))"
    and "line \<notin> set (replay_lines (snd (parse_log_file f log s)))"
proof -
  have no: "\<not> list_ex (\<lambda>q. re_match q line \<noteq> None) tested_pats"
  proof
    assume "list_ex (\<lambda>q. re_match q line \<noteq> None) tested_pats"
    then obtain q where q: "q \<in> set tested_pats" "re_match q line \<noteq> None"
      by (auto simp: list_ex_iff)
    with tested_pats_in_pats ignored_pats_in_pats assms have "p = q"
      using pats_exclusive [of p q line] by blast
    with q(1) ignored_not_tested [OF assms(1)] show False by simp
  qed
  from no initial_scan_deferred [of line f log s]
  show "line \<notin> set (replay_lines (initial_scan f log s))" by blast
  from no parse_log_file_deferred [of line f log s]
  show "line \<notin> set (replay_lines (snd (parse_log_file f log s)))" by blast
qed

lemma processor_row:
  "(processor_pat,
    (\<lambda>m. add_processor (geti m ''pid'') (geti m ''util'') (geti m ''kind'')), True)
   \<in> set scan_table"
  by (simp add: scan_table_def)

lemma event_event_row:
  "(event_event_pat,
    (\<lambda>m. add_event_dependence (geti m ''idone'') (geti m ''genone'') (geti m ''idtwo'')
            (geti m ''gentwo'')), False)
   \<in> set scan_table"
  by (simp add: scan_table_def)

lemma event_event_ignored: "event_event_pat \<in> set ignored_pats"
  by (simp add: ignored_pats_eq)

lemma event_event_not_replayed: "event_event_pat \<notin> set (map fst replay_table)"
  by (simp add: replay_table_def pats_neq pats_neq_rev)

subsection \<open>What a run prints\<close>

lemma initial_scan_stdout_gen:
  "stdout (foldl (\<lambda>e line. scan_line f line e) e log) =
   stdout e @ map skipping (filter (\<lambda>l. \<not> classified l) log)"
  by (induction log arbitrary: e) (simp_all add: scan_line_stdout)

lemma initial_scan_stdout:
  "stdout (initial_scan f log s) = map skipping (filter (\<lambda>l. \<not> classified l) log)"
  by (simp add: initial_scan_def initial_scan_stdout_gen)

lemma parse_log_file_abort:
  assumes "fst (parse_log_file f log s) = Inl AssertionError"
  shows "stdout (snd (parse_log_file f log s)) =
           map skipping (filter (\<lambda>l. \<not> classified l) log) @ [no_progress]"
    and "replay_lines (snd (parse_log_file f log s)) \<noteq> []"
proof -
  from parse_log_file_result [of f log s] assms obtain n e
    where r: "run_passes f n (initial_scan f log s) = Some e" and st: "stalled f e"
      and p: "parse_log_file f log s = (Inl AssertionError, aborted (replay_pass f e))"
    by auto
  from run_passes_fields [OF r] have "stdout e = stdout (initial_scan f log s)" by simp
  with p show "stdout (snd (parse_log_file f log s)) =
           map skipping (filter (\<lambda>l. \<not> classified l) log) @ [no_progress]"
    by (simp add: aborted_def replay_pass_fields initial_scan_stdout)
  from st p show "replay_lines (snd (parse_log_file f log s)) \<noteq> []"
    by (simp add: aborted_def stalled_def)
qed

lemma call_or_defer_refused:
  "\<not> fst (f c (state e)) \<Longrightarrow>
   call_or_defer f line c e =
     e\<lparr>state := snd (f c (state e)), replay_lines := replay_lines e @ [line]\<rparr>"
  by (simp add: call_or_defer_def case_prod_beta)

lemma call_and_mark_refused:
  "\<not> fst (f c (state e)) \<Longrightarrow> call_and_mark f line c e = e\<lparr>state := snd (f c (state e))\<rparr>"
  by (simp add: call_and_mark_def case_prod_beta)

lemma single_refused_record:
  assumes row: "(p, mk, True) \<in> set scan_table" and m: "re_match p line \<noteq> None"
    and no: "\<And>s'. \<not> fst (f (mk (re_match p line)) s')"
  shows "parse_log_file f [line] s =
    (Inl AssertionError,
     \<lparr>matches = 1, replay_lines = [line], to_delete = [],
        state = snd (f (mk (re_match p line)) (snd (f (mk (re_match p line)) s))),
        stdout = [no_progress]\<rparr>) \<or>
    parse_log_file f [line] s =
    (Inl AssertionError,
     \<lparr>matches = 1, replay_lines = [line], to_delete = [],
        state = snd (f (mk (re_match p line)) s), stdout = [no_progress]\<rparr>)"
proof -
  let ?c = "mk (re_match p line)"
  let ?e0 = "\<lparr>matches = 1, replay_lines = [line], to_delete = [],
               state = snd (f ?c s), stdout = []\<rparr>"
  have e0: "initial_scan f [line] s = ?e0"
    using no [of s] by (simp add: initial_scan_def scan_line_row [OF row m] call_or_defer_refused)
  have rp: "replay_pass f ?e0 = replay_line f line ?e0"
    by (simp add: replay_pass_def)
  show ?thesis
  proof (cases "p \<in> set (map fst replay_table)")
    case False
    from row have "p \<in> set pats"
      unfolding scan_table_pats [symmetric] by force
    from replay_line_no_branch [OF this False m] rp
    have "replay_pass f ?e0 = ?e0" by simp
    then have "stalled f ?e0" by (simp add: stalled_def)
    from replay_loop_stalled [OF this] \<open>replay_pass f ?e0 = ?e0\<close> e0 show ?thesis
      by (simp add: parse_log_file_def aborted_def)
  next
    case True
    then obtain mk' where r: "(p, mk') \<in> set replay_table" by auto
    from eq_key_imp_eq_value [OF scan_table_distinct replay_row_in_scan [OF r] row]
    have "mk' = mk" by simp
    with replay_line_row [OF r m, of f ?e0] no [of "snd (f ?c s)"] rp
    have rp': "replay_pass f ?e0 = ?e0\<lparr>state := snd (f ?c (snd (f ?c s)))\<rparr>"
      by (simp add: call_and_mark_refused)
    then have "stalled f ?e0" by (simp add: stalled_def)
    from replay_loop_stalled [OF this] rp' e0 show ?thesis
      by (simp add: parse_log_file_def aborted_def)
  qed
qed

section \<open>The claims\<close>

text \<open>
  C1 (the code does not do this): the replay loop has no link for five of the kinds that
  the initial scan defers (field creation, region, deletion operation, index slice, slice
  slice; \<open>not_replayed\<close>). On the log below the field is created before its field space
  is declared: the scan defers the line, the only replay pass goes over it without calling
  \<^verbatim>\<open>add_field\<close> again, although the call would now succeed, and the run stops with the error.
\<close>

theorem C1_deferred_field_not_retried:
  "parse_log_file toy [ex_field, ex_field_space] [] =
     (Inl AssertionError,
      \<lparr>matches = 2, replay_lines = [ex_field], to_delete = [],
         state = [(add_field 1 2, False), (add_field_space 1, True)],
         stdout = [no_progress]\<rparr>) \<and>
   fst (toy (add_field 1 2) [(add_field 1 2, False), (add_field_space 1, True)])"
  by code_simp

text \<open>
  C2, as stated, fails: the scan tests what \<^verbatim>\<open>add_processor\<close> returns, and a processor line
  whose utility processor is declared later is deferred.
\<close>

theorem C2_counterexample:
  "re_match processor_pat ex_processor \<noteq> None \<and>
   replay_lines (initial_scan toy [ex_processor, ex_utility] []) = [ex_processor]"
  by code_simp

text \<open>
  C2, amended: the kinds whose call the scan makes without testing what it returns are
  utility, memory, index space, field space, top-level task, event-to-event edge and
  implicit-event edge. A line of one of these kinds is handled by one call and is never in
  \<^verbatim>\<open>replay_lines\<close>. A processor declaration is not among them: the scan appends it to
  \<^verbatim>\<open>replay_lines\<close> when \<^verbatim>\<open>add_processor\<close> returns false.
\<close>

theorem C2_untested_kinds_never_deferred:
  "ignored_pats = [utility_pat, memory_pat, top_index_pat, field_space_pat, top_task_pat,
                   event_event_pat, implicit_event_pat] \<and>
   (p \<in> set ignored_pats \<and> re_match p line \<noteq> None \<longrightarrow>
      (\<exists>c. scan_line f line e = call_ignored f c (e\<lparr>matches := matches e + 1\<rparr>)) \<and>
      line \<notin> set (replay_lines (initial_scan f log s)) \<and>
      line \<notin> set (replay_lines (snd (parse_log_file f log s)))) \<and>
   (re_match processor_pat line' \<noteq> None \<longrightarrow>
      scan_line f line' e =
        call_or_defer f line'
          (add_processor (geti (re_match processor_pat line') ''pid'')
             (geti (re_match processor_pat line') ''util'')
             (geti (re_match processor_pat line') ''kind''))
          (e\<lparr>matches := matches e + 1\<rparr>))"
proof -
  have "\<exists>c. scan_line f line e = call_ignored f c (e\<lparr>matches := matches e + 1\<rparr>)"
    if "p \<in> set ignored_pats" "re_match p line \<noteq> None"
  proof -
    from ignored_row [OF that(1)] obtain mk where "(p, mk, False) \<in> set scan_table" ..
    from scan_line_row [OF this that(2), of f e] show ?thesis by auto
  qed
  moreover have "re_match processor_pat line' \<noteq> None \<Longrightarrow>
      scan_line f line' e =
        call_or_defer f line'
          (add_processor (geti (re_match processor_pat line') ''pid'')
             (geti (re_match processor_pat line') ''util'')
             (geti (re_match processor_pat line') ''kind''))
          (e\<lparr>matches := matches e + 1\<rparr>)"
    using scan_line_row [OF processor_row, of line' f e] by simp
  ultimately show ?thesis
    using ignored_never_deferred [of p line f log s] ignored_pats_eq by blast
qed

theorem C2_witness:
  "memory_pat \<in> set ignored_pats \<and> re_match memory_pat ex_memory \<noteq> None \<and>
   ex_memory \<notin> set (replay_lines (initial_scan toy [ex_proc_mem, ex_memory] [])) \<and>
   re_match processor_pat ex_processor \<noteq> None \<and>
   scan_line toy ex_processor ex_env =
     call_or_defer toy ex_processor
       (add_processor (geti (re_match processor_pat ex_processor) ''pid'')
          (geti (re_match processor_pat ex_processor) ''util'')
          (geti (re_match processor_pat ex_processor) ''kind''))
       (ex_env\<lparr>matches := matches ex_env + 1\<rparr>)"
proof -
  have i: "memory_pat \<in> set ignored_pats" by (simp add: ignored_pats_eq)
  have m: "re_match memory_pat ex_memory \<noteq> None \<and> re_match processor_pat ex_processor \<noteq> None"
    by code_simp
  from i m C2_untested_kinds_never_deferred [of memory_pat ex_memory toy ex_env
      "[ex_proc_mem, ex_memory]" "[]" ex_processor]
  show ?thesis by blast
qed

text \<open>
  C3, as stated, fails for event-to-event edges: the scan calls \<^verbatim>\<open>add_event_dependence\<close> as
  a statement. With a state object that answers false the line is not deferred, the call
  is made once, and the run returns.
\<close>

theorem C3_counterexample:
  "parse_log_file refusing [ex_event] [] =
     (Inr 1,
      \<lparr>matches = 1, replay_lines = [], to_delete = [],
         state = [add_event_dependence 1 0 2 0], stdout = []\<rparr>)"
  by code_simp

text \<open>
  C3, amended: a line of a kind whose call the scan tests is appended to \<^verbatim>\<open>replay_lines\<close>
  when the call returns false (\<open>call_or_defer\<close>); for the kinds that have a link in the
  replay loop, every pass makes the same call again and marks the line when it returns
  true. An event-to-event edge is not of such a kind: the scan makes its call once, drops
  what it returns, and the line is never deferred nor retried.
\<close>

theorem C3_tested_kinds_deferred:
  "((p, mk, True) \<in> set scan_table \<and> re_match p line \<noteq> None \<longrightarrow>
      scan_line f line e =
        call_or_defer f line (mk (re_match p line)) (e\<lparr>matches := matches e + 1\<rparr>)) \<and>
   ((q, mk') \<in> set replay_table \<and> re_match q line \<noteq> None \<longrightarrow>
      (q, mk', True) \<in> set scan_table \<and>
      replay_line f line e = call_and_mark f line (mk' (re_match q line)) e) \<and>
   (re_match event_event_pat line' \<noteq> None \<longrightarrow>
      scan_line f line' e =
        call_ignored f
          (add_event_dependence (geti (re_match event_event_pat line') ''idone'')
             (geti (re_match event_event_pat line') ''genone'')
             (geti (re_match event_event_pat line') ''idtwo'')
             (geti (re_match event_event_pat line') ''gentwo''))
          (e\<lparr>matches := matches e + 1\<rparr>) \<and>
      replay_line f line' e = e \<and>
      line' \<notin> set (replay_lines (snd (parse_log_file f log s))))"
proof -
  have "event_event_pat \<in> set pats"
    using event_event_ignored ignored_pats_in_pats by blast
  then have "replay_line f line' e = e" if "re_match event_event_pat line' \<noteq> None"
    using replay_line_no_branch [OF _ event_event_not_replayed that] by simp
  then show ?thesis
    using scan_line_row [of p mk True line f e] replay_row_in_scan [of q mk']
      replay_line_row [of q mk' line f e] scan_line_row [OF event_event_row, of line' f e]
      ignored_never_deferred(2) [OF event_event_ignored, of line' f log s]
    by simp
qed

theorem C3_witness:
  "(proc_mem_pat,
    (\<lambda>m. set_proc_mem (geti m ''pid'') (geti m ''mid'') (geti m ''band'') (geti m ''lat'')))
     \<in> set replay_table \<and>
   re_match proc_mem_pat ex_proc_mem \<noteq> None \<and>
   replay_line toy ex_proc_mem ex_env =
     call_and_mark toy ex_proc_mem
       (set_proc_mem (geti (re_match proc_mem_pat ex_proc_mem) ''pid'')
          (geti (re_match proc_mem_pat ex_proc_mem) ''mid'')
          (geti (re_match proc_mem_pat ex_proc_mem) ''band'')
          (geti (re_match proc_mem_pat ex_proc_mem) ''lat''))
       ex_env \<and>
   re_match event_event_pat ex_event \<noteq> None \<and>
   ex_event \<notin> set (replay_lines (snd (parse_log_file toy [ex_event] [])))"
proof -
  have r: "(proc_mem_pat,
    (\<lambda>m. set_proc_mem (geti m ''pid'') (geti m ''mid'') (geti m ''band'') (geti m ''lat'')))
     \<in> set replay_table"
    by (simp add: replay_table_def)
  have m: "re_match proc_mem_pat ex_proc_mem \<noteq> None \<and> re_match event_event_pat ex_event \<noteq> None"
    by code_simp
  from r m
    C3_tested_kinds_deferred [of proc_mem_pat
      "\<lambda>m. set_proc_mem (geti m ''pid'') (geti m ''mid'') (geti m ''band'') (geti m ''lat'')"
      ex_proc_mem toy ex_env proc_mem_pat
      "\<lambda>m. set_proc_mem (geti m ''pid'') (geti m ''mid'') (geti m ''band'') (geti m ''lat'')"
      ex_event "[ex_event]" "[]"]
  show ?thesis by simp
qed

text \<open>
  C4, as stated, fails: on a stall the run prints one fixed line and raises. The deferred
  line is still in \<^verbatim>\<open>replay_lines\<close>, a local variable, and is not printed.
\<close>

theorem C4_counterexample:
  "parse_log_file refusing [ex_subspace] [] =
     (Inl AssertionError,
      \<lparr>matches = 1, replay_lines = [ex_subspace], to_delete = [],
         state = [add_index_subspace 5 6 0, add_index_subspace 5 6 0],
         stdout = [''ERROR: NO PROGRESS PARSING! BUG IN LEGION SPY LOGGING ASSUMPTIONS!'']\<rparr>)"
  by code_simp

text \<open>
  C4, amended: when the run stops on a stall, what it has printed is the report of every
  unmatched line of the log followed by the one line \<open>no_progress\<close>; the records left are
  not listed. In the case of a log of a single line of a tested kind whose call always
  returns false, the run stops on a stall, \<^verbatim>\<open>replay_lines\<close> holds exactly that line, and
  \<open>no_progress\<close> is all that is printed.
\<close>

theorem C4_stall_prints_fixed_line:
  "(fst (parse_log_file f log s) = Inl AssertionError \<longrightarrow>
      stdout (snd (parse_log_file f log s)) =
        map skipping (filter (\<lambda>l. \<not> classified l) log) @ [no_progress] \<and>
      replay_lines (snd (parse_log_file f log s)) \<noteq> []) \<and>
   ((p, mk, True) \<in> set scan_table \<and> re_match p line \<noteq> None \<and>
    (\<forall>s'. \<not> fst (f (mk (re_match p line)) s')) \<longrightarrow>
      fst (parse_log_file f [line] s) = Inl AssertionError \<and>
      replay_lines (snd (parse_log_file f [line] s)) = [line] \<and>
      stdout (snd (parse_log_file f [line] s)) = [no_progress])"
proof -
  have "fst (parse_log_file f [line] s) = Inl AssertionError \<and>
      replay_lines (snd (parse_log_file f [line] s)) = [line] \<and>
      stdout (snd (parse_log_file f [line] s)) = [no_progress]"
    if "(p, mk, True) \<in> set scan_table" "re_match p line \<noteq> None"
      "\<forall>s'. \<not> fst (f (mk (re_match p line)) s')"
    using single_refused_record [OF that(1,2), of f s] that(3) by auto
  then show ?thesis
    using parse_log_file_abort [of f log s] by blast
qed

theorem C4_witness:
  "(index_subspace_pat,
    (\<lambda>m. add_index_subspace (geti m ''pid'') (geti m ''uid'') (geti m ''color'')), True)
     \<in> set scan_table \<and>
   re_match index_subspace_pat ex_subspace \<noteq> None \<and>
   (\<forall>s'. \<not> fst (refusing (add_index_subspace (geti (re_match index_subspace_pat ex_subspace) ''pid'')
      (geti (re_match index_subspace_pat ex_subspace) ''uid'')
      (geti (re_match index_subspace_pat ex_subspace) ''color'')) s')) \<and>
   fst (parse_log_file refusing [ex_subspace] []) = Inl AssertionError \<and>
   replay_lines (snd (parse_log_file refusing [ex_subspace] [])) = [ex_subspace] \<and>
   stdout (snd (parse_log_file refusing [ex_subspace] [])) = [no_progress]"
proof -
  have r: "(index_subspace_pat,
    (\<lambda>m. add_index_subspace (geti m ''pid'') (geti m ''uid'') (geti m ''color'')), True)
     \<in> set scan_table"
    by (simp add: scan_table_def)
  have m: "re_match index_subspace_pat ex_subspace \<noteq> None" by code_simp
  have n: "\<forall>s'. \<not> fst (refusing c s')" for c by (simp add: refusing_def)
  from r m n
    C4_stall_prints_fixed_line [where f = refusing and s = "[]" and p = index_subspace_pat
      and mk = "\<lambda>m. add_index_subspace (geti m ''pid'') (geti m ''uid'') (geti m ''color'')"
      and line = ex_subspace]
  show ?thesis by simp
qed

text \<open>
  C5: \<^verbatim>\<open>parse_log_file\<close> raises exactly when one of the passes it runs goes over a non-empty
  \<^verbatim>\<open>replay_lines\<close> and leaves \<^verbatim>\<open>to_delete\<close> empty, and it raises at the end of that very pass,
  with \<^verbatim>\<open>AssertionError\<close>; it returns exactly when \<^verbatim>\<open>replay_lines\<close> becomes empty.
  \<open>run_passes f n e\<close> is the environment after \<open>n\<close> passes that each started with a non-empty
  list and deleted a line.
\<close>

theorem C5_abort_iff_no_progress:
  "((fst (parse_log_file f log s) = Inl AssertionError) =
      (\<exists>n e. run_passes f n (initial_scan f log s) = Some e \<and> stalled f e)) \<and>
   (run_passes f n (initial_scan f log s) = Some e \<and> stalled f e \<longrightarrow>
      parse_log_file f log s = (Inl AssertionError, aborted (replay_pass f e))) \<and>
   ((\<exists>v. fst (parse_log_file f log s) = Inr v) =
      (\<exists>n e. run_passes f n (initial_scan f log s) = Some e \<and> replay_lines e = [])) \<and>
   fst (parse_log_file f log s) \<noteq> Inl ValueError"
proof -
  let ?e0 = "initial_scan f log s"
  have raises: "parse_log_file f log s = (Inl AssertionError, aborted (replay_pass f e))"
    if "run_passes f n ?e0 = Some e" "stalled f e" for n e
    using loop_raises [OF that] by (simp add: parse_log_file_def)
  have returns: "parse_log_file f log s = (Inr (matches e), e)"
    if "run_passes f n ?e0 = Some e" "replay_lines e = []" for n e
    using loop_returns [OF that] by (simp add: parse_log_file_def)
  from parse_log_file_result [of f log s] obtain k e'
    where "run_passes f k ?e0 = Some e'"
      and "replay_lines e' = [] \<and> parse_log_file f log s = (Inr (matches e'), e') \<or>
           stalled f e' \<and> parse_log_file f log s = (Inl AssertionError, aborted (replay_pass f e'))"
    by blast
  then have a: "fst (parse_log_file f log s) = Inl AssertionError \<Longrightarrow>
                  \<exists>n e. run_passes f n ?e0 = Some e \<and> stalled f e"
    and b: "\<exists>v. fst (parse_log_file f log s) = Inr v \<Longrightarrow>
                  \<exists>n e. run_passes f n ?e0 = Some e \<and> replay_lines e = []"
    and c: "fst (parse_log_file f log s) \<noteq> Inl ValueError"
    by auto
  have "(fst (parse_log_file f log s) = Inl AssertionError) =
        (\<exists>n e. run_passes f n ?e0 = Some e \<and> stalled f e)"
    using a raises by fastforce
  moreover have "(\<exists>v. fst (parse_log_file f log s) = Inr v) =
        (\<exists>n e. run_passes f n ?e0 = Some e \<and> replay_lines e = [])"
    using b returns by fastforce
  ultimately show ?thesis using raises c by blast
qed

theorem C5_witness:
  "run_passes toy 0 (initial_scan toy [ex_field, ex_field_space] []) =
     Some (initial_scan toy [ex_field, ex_field_space] []) \<and>
   stalled toy (initial_scan toy [ex_field, ex_field_space] []) \<and>
   parse_log_file toy [ex_field, ex_field_space] [] =
     (Inl AssertionError,
      aborted (replay_pass toy (initial_scan toy [ex_field, ex_field_space] [])))"
proof -
  have h: "run_passes toy 0 (initial_scan toy [ex_field, ex_field_space] []) =
             Some (initial_scan toy [ex_field, ex_field_space] []) \<and>
           stalled toy (initial_scan toy [ex_field, ex_field_space] [])"
    by code_simp
  with C5_abort_iff_no_progress [of toy "[ex_field, ex_field_space]" "[]" 0
      "initial_scan toy [ex_field, ex_field_space] []"]
  show ?thesis by blast
qed

text \<open>
  C6: a pass over a non-empty \<^verbatim>\<open>replay_lines\<close> either deletes nothing, and then the loop raises
  at once, or leaves the list strictly shorter (possibly empty) and the loop goes on from
  there. So the loop ends after at most as many passes as there were deferred lines, either
  with an empty list or with the error.
\<close>

theorem C6_progress_or_abort:
  "(replay_lines e \<noteq> [] \<longrightarrow>
      stalled f e \<and> replay_loop f e = (Inl AssertionError, aborted (replay_pass f e)) \<or>
      length (replay_lines (removed f e)) < length (replay_lines e) \<and>
      replay_loop f e = replay_loop f (removed f e)) \<and>
   (\<exists>n e'. n \<le> length (replay_lines e) \<and> run_passes f n e = Some e' \<and>
      (replay_lines e' = [] \<and> replay_loop f e = (Inr (matches e'), e') \<or>
       stalled f e' \<and> replay_loop f e = (Inl AssertionError, aborted (replay_pass f e'))))"
proof -
  have "stalled f e \<and> replay_loop f e = (Inl AssertionError, aborted (replay_pass f e)) \<or>
        length (replay_lines (removed f e)) < length (replay_lines e) \<and>
        replay_loop f e = replay_loop f (removed f e)"
    if ne: "replay_lines e \<noteq> []"
  proof (cases "stalled f e")
    case True
    then show ?thesis by (simp add: replay_loop_stalled)
  next
    case False
    with ne show ?thesis by (simp add: removed_shorter replay_loop_progress)
  qed
  with replay_loop_result [of e f] show ?thesis by blast
qed

theorem C6_witness:
  "replay_lines (initial_scan toy [ex_proc_mem, ex_memory, ex_utility, ex_processor] []) \<noteq> [] \<and>
   \<not> stalled toy (initial_scan toy [ex_proc_mem, ex_memory, ex_utility, ex_processor] []) \<and>
   length (replay_lines
     (removed toy (initial_scan toy [ex_proc_mem, ex_memory, ex_utility, ex_processor] [])))
   < length (replay_lines (initial_scan toy [ex_proc_mem, ex_memory, ex_utility, ex_processor] []))"
proof -
  have h: "replay_lines (initial_scan toy [ex_proc_mem, ex_memory, ex_utility, ex_processor] []) \<noteq> [] \<and>
     \<not> stalled toy (initial_scan toy [ex_proc_mem, ex_memory, ex_utility, ex_processor] [])"
    by code_simp
  with C6_progress_or_abort [of "initial_scan toy [ex_proc_mem, ex_memory, ex_utility, ex_processor] []" toy]
  show ?thesis by blast
qed

text \<open>
  C7 (the code does not do this): \<^verbatim>\<open>to_delete\<close> is a set of line texts and
  \<^verbatim>\<open>replay_lines.remove(line)\<close> deletes one occurrence. With two equal deferred lines whose
  calls both return true in a pass, one of them stays in \<^verbatim>\<open>replay_lines\<close> and its call is
  made again in the next pass: below, two affinity lines give three calls of
  \<^verbatim>\<open>set_proc_mem\<close> that return true.
\<close>

theorem C7_duplicate_line_called_again:
  "replay_lines (initial_scan toy
      [ex_proc_mem, ex_proc_mem, ex_memory, ex_utility, ex_processor] []) =
     [ex_proc_mem, ex_proc_mem] \<and>
   replay_lines (removed toy (initial_scan toy
      [ex_proc_mem, ex_proc_mem, ex_memory, ex_utility, ex_processor] [])) = [ex_proc_mem] \<and>
   parse_log_file toy [ex_proc_mem, ex_proc_mem, ex_memory, ex_utility, ex_processor] [] =
     (Inr 5,
      \<lparr>matches = 5, replay_lines = [], to_delete = [ex_proc_mem],
         state =
           [(set_proc_mem 7 3 10 5, False), (set_proc_mem 7 3 10 5, False),
            (add_memory 3 1024, True), (add_utility 0, True), (add_processor 7 0 1, True),
            (set_proc_mem 7 3 10 5, True), (set_proc_mem 7 3 10 5, True),
            (set_proc_mem 7 3 10 5, True)],
         stdout = []\<rparr>)"
  by code_simp

text \<open>
  C8: at most one of the 33 patterns matches a line, so the links of either chain can be
  tried in any order: the first match, the call made and what is done with its result stay
  the same.
\<close>

theorem C8_patterns_exclusive:
  "(p \<in> set pats \<and> q \<in> set pats \<and> re_match p line \<noteq> None \<and> re_match q line \<noteq> None
      \<longrightarrow> p = q) \<and>
   (mset rows = mset scan_table \<longrightarrow>
      first_match rows line = first_match scan_table line \<and>
      scan_line f line e =
        scan_row f line (e\<lparr>matches := matches e + 1\<rparr>) (first_match rows line)) \<and>
   (mset rows' = mset replay_table \<longrightarrow>
      first_match rows' line = first_match replay_table line \<and>
      replay_line f line e = replay_row f line e (first_match rows' line))"
proof -
  have "set (map fst scan_table) \<subseteq> set pats"
    by (simp only: scan_table_pats subset_refl)
  then have "first_match rows line = first_match scan_table line"
    if "mset rows = mset scan_table"
    using first_match_perm [OF that _ scan_table_distinct] by blast
  moreover have "first_match rows' line = first_match replay_table line"
    if "mset rows' = mset replay_table"
    using first_match_perm [OF that replay_table_pats replay_table_distinct] .
  ultimately show ?thesis
    using pats_exclusive [of p q line] by (simp add: scan_line_table replay_line_table)
qed

theorem C8_witness:
  "processor_pat \<in> set pats \<and> re_match processor_pat ex_processor \<noteq> None \<and>
   re_match proc_mem_pat ex_processor = None \<and>
   mset (rev scan_table) = mset scan_table \<and>
   first_match (rev scan_table) ex_processor = first_match scan_table ex_processor"
proof -
  have h: "processor_pat \<in> set pats \<and> proc_mem_pat \<in> set pats \<and>
           re_match processor_pat ex_processor \<noteq> None \<and> proc_mem_pat \<noteq> processor_pat"
    by code_simp
  have m: "mset (rev scan_table) = mset scan_table" by simp
  from h m C8_patterns_exclusive [of processor_pat proc_mem_pat ex_processor "rev scan_table"]
       C8_patterns_exclusive [of proc_mem_pat processor_pat ex_processor "rev scan_table"]
  show ?thesis by blast
qed

text \<open>
  C9: a line that no pattern matches is reported and dropped. \<^verbatim>\<open>matches\<close>, \<^verbatim>\<open>replay_lines\<close> and
  the state object are as before the line, so no method of the object was called; the line
  is never in \<^verbatim>\<open>replay_lines\<close>; and the run goes on as if the line were not in the log: the
  same value or error, the same state and the same deferred lines at the end.
\<close>

theorem C9_unmatched_line_skipped:
  assumes "\<not> classified line"
  shows "scan_line f line e = e\<lparr>stdout := stdout e @ [skipping line]\<rparr> \<and>
         line \<notin> set (replay_lines (initial_scan f log s)) \<and>
         line \<notin> set (replay_lines (snd (parse_log_file f log s))) \<and>
         fst (parse_log_file f (pre @ line # post) s) = fst (parse_log_file f (pre @ post) s) \<and>
         same_run (snd (parse_log_file f (pre @ line # post) s))
                  (snd (parse_log_file f (pre @ post) s))"
  using scan_line_unmatched [OF assms, of f e] unclassified_not_deferred [OF assms, of f log s]
    same_run_loop [OF skip_line_same_run [OF assms, of f pre post s], of f]
  by (simp add: parse_log_file_def)

theorem C9_witness:
  "\<not> classified ex_junk \<and>
   fst (parse_log_file toy ([ex_proc_mem] @ ex_junk # [ex_memory, ex_utility, ex_processor]) []) =
   fst (parse_log_file toy ([ex_proc_mem] @ [ex_memory, ex_utility, ex_processor]) []) \<and>
   ex_junk \<notin> set (replay_lines (initial_scan toy [ex_proc_mem, ex_junk] []))"
proof -
  have h: "\<not> classified ex_junk" by code_simp
  from C9_unmatched_line_skipped [OF h, of toy _ "[ex_proc_mem, ex_junk]" "[]" "[ex_proc_mem]"
      "[ex_memory, ex_utility, ex_processor]"] h
  show ?thesis by blast
qed

text \<open>
  C10: when \<^verbatim>\<open>parse_log_file\<close> returns, the value is the number of lines of the log that some
  pattern matches. It is the value of \<^verbatim>\<open>matches\<close> at the end of the initial scan, where a
  line counts whether or not its record is deferred, and the replay loop leaves it as it is.
\<close>

theorem C10_match_count:
  assumes "parse_log_file f log s = (Inr n, e)"
  shows "n = int (length (filter classified log)) \<and> matches (initial_scan f log s) = n \<and>
         matches e = n"
  using replay_loop_matches [OF assms [unfolded parse_log_file_def]]
  by (simp add: initial_scan_matches)

theorem C10_witness:
  "parse_log_file toy [ex_proc_mem, ex_junk, ex_memory, ex_utility, ex_processor] [] =
     (Inr 4, snd (parse_log_file toy [ex_proc_mem, ex_junk, ex_memory, ex_utility, ex_processor] []))
   \<and> int (length (filter classified [ex_proc_mem, ex_junk, ex_memory, ex_utility, ex_processor])) = 4"
proof -
  have h: "parse_log_file toy [ex_proc_mem, ex_junk, ex_memory, ex_utility, ex_processor] [] =
     (Inr 4, snd (parse_log_file toy [ex_proc_mem, ex_junk, ex_memory, ex_utility, ex_processor] []))"
    by code_simp
  from C10_match_count [OF h] h show ?thesis by simp
qed

end
